theory Spec2Isabelle
  imports Main "HOL-Library.Word" "HOL-Library.Multiset"
begin

unbundle bit_operations_syntax

section \<open>Data model\<close>

text \<open>
  Go's \<open>int64\<close>, \<open>uint64\<close> and \<open>uint32\<close> are machine words; Go's \<open>int\<close> is the
  64-bit signed integer of the platforms the gateway is deployed on.  Arithmetic wraps
  around; a signed reading is \<open>sint\<close>, an unsigned one \<open>unat\<close>.
\<close>

type_synonym int64 = "64 word"
type_synonym uint64 = "64 word"
type_synonym uint32 = "32 word"
type_synonym byte = "8 word"

text \<open>
  \<open>bucket.BucketInfo\<close> and its \<open>config.BucketConfig\<close>, with the fields the code under
  verification reads.  A \<open>*bucket.BucketInfo\<close> is modelled by its value; the registry
  keys its records by \<open>Config.Name\<close>.
\<close>

record BucketConfig =
  Name :: string
  Endpoint :: string
  Region :: string
  MaxSize :: string
  MaxSizeBytes :: int64
  Weight :: int64
  Enabled :: bool

record BucketInfo =
  Config :: BucketConfig
  UsedSize :: int64
  Available :: bool

text \<open>
  Every error return and panic of the balancer package:
  \<^item> \<open>ErrNoAvailableBuckets\<close> is \<open>fmt.Errorf("no available buckets")\<close>, the spec's
    \<open>NoAvailableBackend\<close>;
  \<^item> \<open>ErrNotEnoughSpace size\<close> is \<open>fmt.Errorf("no bucket has enough space for %d bytes", size)\<close>,
    the spec's \<open>InsufficientCapacity\<close>;
  \<^item> \<open>ErrNoBuckets\<close> is the strategies' \<open>fmt.Errorf("no buckets available")\<close>;
  \<^item> \<open>ErrUnknownStrategy\<close> is \<open>NewBalancer\<close>'s error;
  \<^item> \<open>Panic\<close> is a run-time panic (index out of range, \<open>rand.Intn\<close> on a non-positive
    argument).
\<close>

datatype error =
    ErrNoAvailableBuckets
  | ErrNotEnoughSpace int64
  | ErrNoBuckets
  | ErrUnknownStrategy string
  | Panic string

text \<open>Indexing a slice with a Go \<open>int\<close>: out of range panics.\<close>

definition index_slice :: "'a list \<Rightarrow> int64 \<Rightarrow> error + 'a" where
  "index_slice xs i =
     (if 0 \<le> sint i \<and> sint i < int (length xs) then Inr (xs ! nat (sint i))
      else Inl (Panic ''index out of range''))"

section \<open>Round-robin strategy\<close>

record RoundRobinStrategy =
  counter :: uint64

definition NewRoundRobinStrategy :: RoundRobinStrategy where
  "NewRoundRobinStrategy = \<lparr>counter = 0\<rparr>"

text \<open>
  \<open>atomic.AddUint64(&s.counter, 1)\<close> stores and returns the incremented counter; the
  index is the unsigned remainder by \<open>uint64(len(buckets))\<close>, and indexing checks the
  bounds.
\<close>

definition RoundRobin_SelectBucket ::
  "RoundRobinStrategy \<Rightarrow> BucketInfo list \<Rightarrow> string \<Rightarrow> int64
     \<Rightarrow> (error + BucketInfo) \<times> RoundRobinStrategy" where
  "RoundRobin_SelectBucket s buckets key sz =
     (if length buckets = 0 then (Inl ErrNoBuckets, s)
      else
        let c = counter s + 1;
            index = c mod (word_of_nat (length buckets))
        in (if unat index < length buckets then Inr (buckets ! unat index)
            else Inl (Panic ''index out of range''),
            s\<lparr>counter := c\<rparr>))"

text \<open>\<open>k\<close> consecutive calls on the same list: the buckets returned, in call order.\<close>

fun RoundRobin_calls ::
  "nat \<Rightarrow> RoundRobinStrategy \<Rightarrow> BucketInfo list \<Rightarrow> (error + BucketInfo) list \<times> RoundRobinStrategy" where
  "RoundRobin_calls 0 s buckets = ([], s)"
| "RoundRobin_calls (Suc k) s buckets =
     (let (r, s') = RoundRobin_SelectBucket s buckets [] 0;
          (rs, s'') = RoundRobin_calls k s' buckets
      in (r # rs, s''))"

section \<open>Example data\<close>

text \<open>A bucket record with the given name, capacity, weight and usage, for the concrete instances below.\<close>

definition example_bucket :: "string \<Rightarrow> int64 \<Rightarrow> int64 \<Rightarrow> int64 \<Rightarrow> BucketInfo" where
  "example_bucket n cap w used =
     \<lparr>Config = \<lparr>Name = n, Endpoint = [], Region = [], MaxSize = [], MaxSizeBytes = cap,
                 Weight = w, Enabled = True\<rparr>,
      UsedSize = used, Available = True\<rparr>"

section \<open>Basic-auth middleware\<close>

text \<open>
  The part of an \<open>*http.Request\<close> the middleware can tell apart: method, path and the
  header (canonical name to first value).  \<open>Header.Get\<close> is the empty string for an absent
  header.
\<close>

record Request =
  Method :: string
  Path :: string
  Header :: "string \<rightharpoonup> string"

definition Header_Get :: "Request \<Rightarrow> string \<Rightarrow> string" where
  "Header_Get r k = (case Header r k of None \<Rightarrow> [] | Some v \<Rightarrow> v)"

text \<open>
  What a handler does with the \<open>http.ResponseWriter\<close>: set a header, call the configured
  \<open>OnError\<close> callback (code, message, resource), or \<open>http.Error\<close> (message, status).
\<close>

datatype response_write = SetHeader string string | CallOnError string string string | HttpError string nat

text \<open>
  The outcome of the middleware on one request: either \<open>next.ServeHTTP(w, r)\<close> is called
  with a request, or the middleware answers by itself.
\<close>

datatype outcome = Next Request | Responded "response_write list"

text \<open>
  \<open>AuthConfig\<close>: each field is a Go function value that may be \<open>nil\<close>.  \<open>Required\<close> holds
  what the predicate reports, \<open>Credentials\<close> the pair it returns; of \<open>OnError\<close> only
  whether it is set matters here.
\<close>

record AuthConfig =
  Required :: "bool option"
  Credentials :: "(string \<times> string) option"
  OnError :: bool

definition HasPrefix :: "string \<Rightarrow> string \<Rightarrow> bool" where
  "HasPrefix s p = (take (length p) s = p)"

definition TrimPrefix :: "string \<Rightarrow> string \<Rightarrow> string" where
  "TrimPrefix s p = (if HasPrefix s p then drop (length p) s else s)"

text \<open>\<open>strings.SplitN(s, ":", 2)\<close>: cut at the first colon, or the string alone.\<close>

definition SplitN_colon_2 :: "string \<Rightarrow> string list" where
  "SplitN_colon_2 s =
     (if CHR '':'' \<in> set s
      then [takeWhile (\<lambda>c. c \<noteq> CHR '':'') s, tl (dropWhile (\<lambda>c. c \<noteq> CHR '':'') s)]
      else [s])"

definition invokeOnError :: "AuthConfig \<Rightarrow> string \<Rightarrow> string \<Rightarrow> response_write list" where
  "invokeOnError cfg code message =
     (if OnError cfg then [CallOnError code message []]
      else [HttpError message 403])"

definition requireAuth :: "AuthConfig \<Rightarrow> response_write list" where
  "requireAuth cfg =
     SetHeader ''WWW-Authenticate'' ''Basic realm=\"s3-balance\"''
       # invokeOnError cfg ''AccessDenied'' ''Access Denied''"

text \<open>
  \<open>BasicAuth(cfg)(next)\<close> on a request.  \<open>DecodeString\<close> is the standard library's
  \<open>base64.StdEncoding.DecodeString\<close>: \<open>None\<close> is its error.
\<close>

definition BasicAuth :: "(string \<Rightarrow> string option) \<Rightarrow> AuthConfig \<Rightarrow> Request \<Rightarrow> outcome" where
  "BasicAuth DecodeString cfg r =
     (let required = (case Required cfg of None \<Rightarrow> False | Some b \<Rightarrow> b) in
      if \<not> required then Next r
      else
        let authHeader = Header_Get r ''Authorization'' in
        if \<not> HasPrefix authHeader ''Basic '' then Responded (requireAuth cfg)
        else
          let payload = TrimPrefix authHeader ''Basic '' in
          case DecodeString payload of
            None \<Rightarrow> Responded (requireAuth cfg)
          | Some decoded \<Rightarrow>
              let parts = SplitN_colon_2 decoded in
              if length parts \<noteq> 2 then Responded (requireAuth cfg)
              else
                let (accessKey, secretKey) =
                      (case Credentials cfg of None \<Rightarrow> ([], []) | Some c \<Rightarrow> c) in
                if parts ! 0 \<noteq> accessKey then
                  Responded (invokeOnError cfg ''InvalidAccessKeyId''
                    ''The AWS Access Key Id you provided does not match the configured key.'')
                else if parts ! 1 \<noteq> secretKey then
                  Responded (invokeOnError cfg ''SignatureDoesNotMatch''
                    ''The request signature we calculated does not match the signature you provided.'')
                else Next r)"

text \<open>The credentials a request must present: the configured pair, or two empty strings.\<close>

definition configured :: "AuthConfig \<Rightarrow> string \<times> string" where
  "configured cfg = (case Credentials cfg of None \<Rightarrow> ([], []) | Some c \<Rightarrow> c)"





section \<open>Placement store and the object handlers\<close>

text \<open>
  The record \<open>storage.Service.GetObjectInfo\<close> returns; the handler reads \<open>BucketName\<close> and
  \<open>Size\<close>.
\<close>

record ObjectInfo =
  Key :: string
  BucketName :: string
  Size :: int64

datatype storage_error = NotFound | StorageFailure string

text \<open>
  Modelled from the spec: the package \<open>internal/storage\<close> is not among the sources.  The
  store is the durable mapping from key to placement record; \<open>get_info(key)\<close> fails with
  \<open>NotFound\<close> if the key is absent, and \<open>delete(key)\<close> is idempotent.
\<close>

type_synonym Service = "string \<rightharpoonup> ObjectInfo"

definition GetObjectInfo :: "Service \<Rightarrow> string \<Rightarrow> storage_error + ObjectInfo" where
  "GetObjectInfo st key = (case st key of None \<Rightarrow> Inl NotFound | Some info \<Rightarrow> Inr info)"

definition DeleteObject :: "Service \<Rightarrow> string \<Rightarrow> storage_error + Service" where
  "DeleteObject st key = Inr (st(key := None))"

text \<open>
  Modelled from the spec: the package \<open>internal/bucket\<close> is not among the sources.  The
  registry \<open>bucket.Manager\<close> owns the records, one per name; it is the list of its
  records in the order its iteration visits them.  \<open>get(name)\<close> finds the record of a
  name, \<open>get_available()\<close> keeps the records with \<open>enabled && available\<close>, and
  \<open>update_used_size\<close> adds a delta, negative on the delete path, to \<open>used_size\<close> of the
  record (which the registry shares by pointer).
\<close>

type_synonym Manager = "BucketInfo list"

definition GetBucket :: "Manager \<Rightarrow> string \<Rightarrow> BucketInfo option" where
  "GetBucket m name = find (\<lambda>b. Name (Config b) = name) m"

definition GetAvailableBuckets :: "Manager \<Rightarrow> BucketInfo list" where
  "GetAvailableBuckets m = filter (\<lambda>b. Enabled (Config b) \<and> Available b) m"

definition UpdateUsedSize :: "BucketInfo \<Rightarrow> int64 \<Rightarrow> BucketInfo" where
  "UpdateUsedSize b delta = b\<lparr>UsedSize := UsedSize b + delta\<rparr>"

definition store_bucket :: "Manager \<Rightarrow> string \<Rightarrow> BucketInfo \<Rightarrow> Manager" where
  "store_bucket m name b' = map (\<lambda>b. if Name (Config b) = name then b' else b) m"

text \<open>The state the API handler works on, and the JSON answer it sends.\<close>

record Handler =
  bucketManager :: Manager
  storage :: Service

record Response =
  status :: nat
  body :: "(string \<times> string) list"

definition sendJSON :: "nat \<Rightarrow> (string \<times> string) list \<Rightarrow> Response" where
  "sendJSON st data = \<lparr>status = st, body = data\<rparr>"

definition sendError :: "nat \<Rightarrow> string \<Rightarrow> Response" where
  "sendError st message = sendJSON st [(''error'', message)]"

text \<open>\<open>DELETE /api/v1/objects/{key}\<close>.\<close>

definition handleDeleteObject :: "Handler \<Rightarrow> string \<Rightarrow> Response \<times> Handler" where
  "handleDeleteObject h key =
     (case GetObjectInfo (storage h) key of
        Inl err \<Rightarrow> (sendError 404 ''object not found'', h)
      | Inr info \<Rightarrow>
          let h1 = (case GetBucket (bucketManager h) (BucketName info) of
                      Some bucket \<Rightarrow>
                        h\<lparr>bucketManager := store_bucket (bucketManager h) (BucketName info)
                             (UpdateUsedSize bucket (- Size info))\<rparr>
                    | None \<Rightarrow> h)
          in (case DeleteObject (storage h1) key of
                Inl err \<Rightarrow> (sendError 500 ''failed to delete object'', h1)
              | Inr st \<Rightarrow>
                  (sendJSON 200 [(''message'', ''object deleted successfully'')],
                   h1\<lparr>storage := st\<rparr>)))"

text \<open>A handler state with one bucket and one placed object.\<close>

definition example_handler :: Handler where
  "example_handler =
     \<lparr>bucketManager = [example_bucket ''A'' 100 1 60],
      storage = [''x'' \<mapsto> \<lparr>Key = ''x'', BucketName = ''A'', Size = 60\<rparr>]\<rparr>"

section \<open>Configuration manager\<close>

text \<open>
  \<open>GetConfig\<close> copies a struct through a pointer, so the model has a heap.  An address is
  an index into a list of cells; allocation appends a cell.  A slice \<open>[]BucketConfig\<close> is
  a header (backing array, length, capacity); the backing arrays live in the heap too.
\<close>

type_synonym addr = nat

record Slice =
  array :: addr
  len :: nat
  cap :: nat

text \<open>
  Modelled from the spec: the declaration of \<open>config.Config\<close> is not among the sources.
  The fields are those \<open>logConfigChanges\<close> reads; \<open>Buckets\<close> is the snapshot's list of
  \<open>BucketConfig\<close>, a Go slice (\<open>len(oldConfig.Buckets)\<close>).
\<close>

record Config_struct =
  Server_Port :: int
  Database_DSN :: string
  Buckets :: Slice
  Balancer_Strategy :: string
  S3API_ProxyMode :: bool
  Metrics_Enabled :: bool

record Heap =
  configs :: "Config_struct list"
  arrays :: "BucketConfig list list"

text \<open>The manager's field \<open>config *Config\<close>.\<close>

record ConfigManager =
  config :: addr

text \<open>
  \<open>configCopy := *m.config; return &configCopy\<close>: a fresh \<open>Config\<close> cell that holds the
  fields of the live one, the slice header among them.
\<close>

definition GetConfig :: "ConfigManager \<Rightarrow> Heap \<Rightarrow> addr \<times> Heap" where
  "GetConfig m h =
     (let configCopy = configs h ! config m
      in (length (configs h), h\<lparr>configs := configs h @ [configCopy]\<rparr>))"

text \<open>
  What a caller can do with a \<open>*Config\<close>: assign a field of the struct
  (\<open>c.Server.Port = p\<close>), or assign through the slice (\<open>c.Buckets[i].Name = n\<close>; out of
  range panics, here \<open>None\<close>).
\<close>

definition set_Server_Port :: "addr \<Rightarrow> int \<Rightarrow> Heap \<Rightarrow> Heap" where
  "set_Server_Port c p h = h\<lparr>configs := (configs h)[c := (configs h ! c)\<lparr>Server_Port := p\<rparr>]\<rparr>"

definition set_Bucket_Name :: "addr \<Rightarrow> nat \<Rightarrow> string \<Rightarrow> Heap \<Rightarrow> Heap option" where
  "set_Bucket_Name c i n h =
     (let s = Buckets (configs h ! c) in
      if i < len s then
        Some (h\<lparr>arrays := (arrays h)[array s := (arrays h ! array s)[i := (arrays h ! array s ! i)\<lparr>Name := n\<rparr>]]\<rparr>)
      else None)"

text \<open>What a reader of a \<open>*Config\<close> sees of the bucket list: the elements of the slice.\<close>

definition read_Buckets :: "addr \<Rightarrow> Heap \<Rightarrow> BucketConfig list" where
  "read_Buckets c h = (let s = Buckets (configs h ! c) in take (len s) (arrays h ! array s))"

text \<open>A heap with the live configuration at address 0 and one bucket \<open>A\<close>.\<close>

definition example_heap :: Heap where
  "example_heap =
     \<lparr>configs = [\<lparr>Server_Port = 8080, Database_DSN = ''s3.db'',
                   Buckets = \<lparr>array = 0, len = 1, cap = 1\<rparr>,
                   Balancer_Strategy = ''round-robin'', S3API_ProxyMode = False,
                   Metrics_Enabled = True\<rparr>],
      arrays = [[Config (example_bucket ''A'' 100 1 0)]]\<rparr>"

section \<open>Weighted strategy\<close>

text \<open>
  \<open>rand.Intn(n)\<close> panics when \<open>n \<le> 0\<close> and otherwise returns a number of \<open>[0, n)\<close>.  The
  generator is a parameter: \<open>rng n\<close> is the number it yields when asked for one below
  \<open>n\<close>; \<open>Intn_contract\<close> is the library's promise about it.
\<close>

definition rand_Intn :: "(int64 \<Rightarrow> int64) \<Rightarrow> int64 \<Rightarrow> error + int64" where
  "rand_Intn rng n =
     (if sint n \<le> 0 then Inl (Panic ''invalid argument to Intn'') else Inr (rng n))"

definition Intn_contract :: "(int64 \<Rightarrow> int64) \<Rightarrow> bool" where
  "Intn_contract rng = (\<forall>n. 0 < sint n \<longrightarrow> 0 \<le> sint (rng n) \<and> sint (rng n) < sint n)"

text \<open>The first loop: \<open>totalWeight += b.Config.Weight\<close>, in 64-bit arithmetic.\<close>

fun totalWeight_loop :: "int64 \<Rightarrow> BucketInfo list \<Rightarrow> int64" where
  "totalWeight_loop totalWeight [] = totalWeight"
| "totalWeight_loop totalWeight (b # bs) = totalWeight_loop (totalWeight + Weight (Config b)) bs"

text \<open>
  The second loop: accumulate and return the first bucket with
  \<open>randomWeight < currentWeight\<close>; \<open>None\<close> when the loop ends without returning.
\<close>

fun weighted_walk :: "int64 \<Rightarrow> int64 \<Rightarrow> BucketInfo list \<Rightarrow> BucketInfo option" where
  "weighted_walk randomWeight currentWeight [] = None"
| "weighted_walk randomWeight currentWeight (b # bs) =
     (let currentWeight' = currentWeight + Weight (Config b) in
      if sint randomWeight < sint currentWeight' then Some b
      else weighted_walk randomWeight currentWeight' bs)"

definition Weighted_SelectBucket ::
  "(int64 \<Rightarrow> int64) \<Rightarrow> BucketInfo list \<Rightarrow> string \<Rightarrow> int64 \<Rightarrow> error + BucketInfo" where
  "Weighted_SelectBucket rng buckets key sz =
     (if length buckets = 0 then Inl ErrNoBuckets
      else
        let totalWeight = totalWeight_loop 0 buckets in
        if totalWeight = 0 then
          (case rand_Intn rng (word_of_nat (length buckets)) of
             Inl e \<Rightarrow> Inl e
           | Inr i \<Rightarrow> index_slice buckets i)
        else
          (case rand_Intn rng totalWeight of
             Inl e \<Rightarrow> Inl e
           | Inr randomWeight \<Rightarrow>
               (case weighted_walk randomWeight 0 buckets of
                  Some b \<Rightarrow> Inr b
                | None \<Rightarrow> index_slice buckets (word_of_nat (length buckets) - 1))))"

text \<open>
  The weights as mathematical integers: the weight of a bucket, the total weight \<open>W\<close> of
  a list, and the cumulative weight of its first \<open>k\<close> buckets.
\<close>

definition weight :: "BucketInfo \<Rightarrow> int" where
  "weight b = sint (Weight (Config b))"

definition total_weight :: "BucketInfo list \<Rightarrow> int" where
  "total_weight bs = sum_list (map weight bs)"

definition cumulative_weight :: "BucketInfo list \<Rightarrow> nat \<Rightarrow> int" where
  "cumulative_weight bs k = total_weight (take k bs)"

text \<open>A generator for the concrete instances: 4 when asked for a number below more than 4, else 0.\<close>

definition example_rng :: "int64 \<Rightarrow> int64" where
  "example_rng n = (if 4 < sint n then 4 else 0)"

section \<open>MD5 (\<open>crypto/md5\<close>) and the ring hash\<close>

text \<open>
  \<open>md5.Sum\<close> is the MD5 digest of RFC 1321: the message is padded with the byte
  \<open>0x80\<close>, zero bytes up to 56 modulo 64, and its length in bits as a 64-bit
  little-endian number; every block of 64 bytes, read as sixteen little-endian 32-bit
  words, goes through 64 steps on the state \<open>(a, b, c, d)\<close>.
\<close>

definition md5_K :: "uint32 list" where
  "md5_K =
     [
      0xd76aa478, 0xe8c7b756, 0x242070db, 0xc1bdceee,
      0xf57c0faf, 0x4787c62a, 0xa8304613, 0xfd469501,
      0x698098d8, 0x8b44f7af, 0xffff5bb1, 0x895cd7be,
      0x6b901122, 0xfd987193, 0xa679438e, 0x49b40821,
      0xf61e2562, 0xc040b340, 0x265e5a51, 0xe9b6c7aa,
      0xd62f105d, 0x02441453, 0xd8a1e681, 0xe7d3fbc8,
      0x21e1cde6, 0xc33707d6, 0xf4d50d87, 0x455a14ed,
      0xa9e3e905, 0xfcefa3f8, 0x676f02d9, 0x8d2a4c8a,
      0xfffa3942, 0x8771f681, 0x6d9d6122, 0xfde5380c,
      0xa4beea44, 0x4bdecfa9, 0xf6bb4b60, 0xbebfbc70,
      0x289b7ec6, 0xeaa127fa, 0xd4ef3085, 0x04881d05,
      0xd9d4d039, 0xe6db99e5, 0x1fa27cf8, 0xc4ac5665,
      0xf4292244, 0x432aff97, 0xab9423a7, 0xfc93a039,
      0x655b59c3, 0x8f0ccc92, 0xffeff47d, 0x85845dd1,
      0x6fa87e4f, 0xfe2ce6e0, 0xa3014314, 0x4e0811a1,
      0xf7537e82, 0xbd3af235, 0x2ad7d2bb, 0xeb86d391]"

definition md5_shift :: "nat list" where
  "md5_shift =
     [
      7, 12, 17, 22, 7, 12, 17, 22, 7, 12, 17, 22, 7, 12, 17, 22,
      5, 9, 14, 20, 5, 9, 14, 20, 5, 9, 14, 20, 5, 9, 14, 20,
      4, 11, 16, 23, 4, 11, 16, 23, 4, 11, 16, 23, 4, 11, 16, 23,
      6, 10, 15, 21, 6, 10, 15, 21, 6, 10, 15, 21, 6, 10, 15, 21]"

definition le32 :: "byte list \<Rightarrow> uint32" where
  "le32 bs = foldr (\<lambda>b w. ucast b OR push_bit 8 w) bs 0"

definition le_bytes :: "nat \<Rightarrow> 'a::len word \<Rightarrow> byte list" where
  "le_bytes k w = map (\<lambda>i. ucast (drop_bit (8 * i) w)) [0..<k]"

definition md5_pad :: "byte list \<Rightarrow> byte list" where
  "md5_pad m =
     m @ [0x80] @ replicate ((119 - length m mod 64) mod 64) 0 @ le_bytes 8 (word_of_nat (8 * length m) :: uint64)"

fun chunks :: "nat \<Rightarrow> 'a list \<Rightarrow> 'a list list" where
  "chunks 0 xs = []"
| "chunks n [] = []"
| "chunks n xs = take n xs # chunks n (drop n xs)"

type_synonym md5_state = "uint32 \<times> uint32 \<times> uint32 \<times> uint32"

definition md5_step :: "uint32 list \<Rightarrow> nat \<Rightarrow> md5_state \<Rightarrow> md5_state" where
  "md5_step M i st =
     (case st of (A, B, C, D) \<Rightarrow>
        let (F, g) =
              (if i < 16 then ((B AND C) OR (NOT B AND D), i)
               else if i < 32 then ((D AND B) OR (NOT D AND C), (5 * i + 1) mod 16)
               else if i < 48 then (B XOR C XOR D, (3 * i + 5) mod 16)
               else (C XOR (B OR NOT D), (7 * i) mod 16));
            F' = F + A + md5_K ! i + M ! g
        in (D, B + word_rotl (md5_shift ! i) F', B, C))"

definition md5_block :: "byte list \<Rightarrow> md5_state \<Rightarrow> md5_state" where
  "md5_block blk st =
     (case st of (a0, b0, c0, d0) \<Rightarrow>
        let M = map le32 (chunks 4 blk) in
        case fold (md5_step M) [0..<64] st of
          (A, B, C, D) \<Rightarrow> (a0 + A, b0 + B, c0 + C, d0 + D))"

definition md5_Sum :: "byte list \<Rightarrow> byte list" where
  "md5_Sum m =
     (case fold md5_block (chunks 64 (md5_pad m))
             (0x67452301, 0xefcdab89, 0x98badcfe, 0x10325476) of
        (a, b, c, d) \<Rightarrow> concat (map (\<lambda>w. le_bytes 4 w) [a, b, c, d]))"

text \<open>\<open>[]byte(key)\<close>: the bytes of a string.\<close>

definition bytes_of :: "string \<Rightarrow> byte list" where
  "bytes_of s = map (\<lambda>c. of_char c) s"

text \<open>\<open>binary.BigEndian.Uint32\<close> of the first four bytes.\<close>

definition BigEndian_Uint32 :: "byte list \<Rightarrow> uint32" where
  "BigEndian_Uint32 b =
     ucast (b ! 3) OR push_bit 8 (ucast (b ! 2)) OR push_bit 16 (ucast (b ! 1))
       OR push_bit 24 (ucast (b ! 0))"

text \<open>\<open>ConsistentHashStrategy.hash\<close>.\<close>

definition hash :: "string \<Rightarrow> uint32" where
  "hash key = (let h = md5_Sum (bytes_of key) in BigEndian_Uint32 (take 4 h))"

section \<open>The standard library's sort\<close>

text \<open>
  \<open>sort.Slice(x, less)\<close> reorders the slice in place.  The strategies are stated for any
  procedure \<open>sort_Slice\<close> that keeps the library's documented promise for the \<open>less\<close>
  it is given: the result holds the same elements and no element is \<open>less\<close> than one
  before it.  The library does not promise stability.
\<close>

definition sort_Slice_contract ::
  "(('a \<Rightarrow> 'a \<Rightarrow> bool) \<Rightarrow> 'a list \<Rightarrow> 'a list) \<Rightarrow> ('a \<Rightarrow> 'a \<Rightarrow> bool) \<Rightarrow> bool" where
  "sort_Slice_contract sort_Slice less_fn =
     (\<forall>xs. mset (sort_Slice less_fn xs) = mset xs \<and>
           sorted_wrt (\<lambda>x y. \<not> less_fn y x) (sort_Slice less_fn xs))"

text \<open>
  \<open>sort.Search(n, f)\<close>: binary search for the smallest index in \<open>[0, n]\<close> at which \<open>f\<close>
  holds, \<open>n\<close> if there is none (for a monotone \<open>f\<close>).
\<close>

function Search_loop :: "(nat \<Rightarrow> bool) \<Rightarrow> nat \<Rightarrow> nat \<Rightarrow> nat" where
  "Search_loop f i j =
     (if i < j then
        let h = (i + j) div 2 in
        if \<not> f h then Search_loop f (h + 1) j else Search_loop f i h
      else i)"
  by pat_completeness auto

termination
  by (relation "measure (\<lambda>(f, i, j). j - i)") auto

declare Search_loop.simps [simp del]

definition sort_Search :: "nat \<Rightarrow> (nat \<Rightarrow> bool) \<Rightarrow> nat" where
  "sort_Search n f = Search_loop f 0 n"

section \<open>Least-space strategy\<close>

text \<open>
  Modelled from the spec: \<open>BucketInfo.GetAvailableSpace\<close> (package \<open>internal/bucket\<close>) is
  not among the sources; it is \<open>max_size_bytes - used_size\<close>.  The callers compare the
  result with an \<open>int64\<close> and pass \<open>MaxSizeBytes\<close> where an \<open>int64\<close> is expected, so the
  subtraction is the 64-bit signed one.
\<close>

definition GetAvailableSpace :: "BucketInfo \<Rightarrow> int64" where
  "GetAvailableSpace b = MaxSizeBytes (Config b) - UsedSize b"

text \<open>The \<open>less\<close> of the strategy: more available space comes first.\<close>

definition more_space :: "BucketInfo \<Rightarrow> BucketInfo \<Rightarrow> bool" where
  "more_space bi bj = (sint (GetAvailableSpace bi) > sint (GetAvailableSpace bj))"

definition LeastSpace_SelectBucket ::
  "((BucketInfo \<Rightarrow> BucketInfo \<Rightarrow> bool) \<Rightarrow> BucketInfo list \<Rightarrow> BucketInfo list)
     \<Rightarrow> BucketInfo list \<Rightarrow> string \<Rightarrow> int64 \<Rightarrow> error + BucketInfo" where
  "LeastSpace_SelectBucket sort_Slice buckets key sz =
     (if length buckets = 0 then Inl ErrNoBuckets
      else
        let buckets' = sort_Slice more_space buckets
        in index_slice buckets' 0)"

section \<open>Consistent-hash strategy\<close>

text \<open>\<open>fmt.Sprintf("%s-%d", name, i)\<close> for a loop index \<open>i \<ge> 0\<close>.\<close>

function itoa :: "nat \<Rightarrow> string" where
  "itoa n =
     (if n < 10 then [char_of (48 + n)]
      else itoa (n div 10) @ [char_of (48 + n mod 10)])"
  by pat_completeness auto

termination
  by (relation "measure id") auto

declare itoa.simps [simp del]

definition virtualKey :: "string \<Rightarrow> nat \<Rightarrow> string" where
  "virtualKey name i = name @ ''-'' @ itoa i"

text \<open>
  The strategy's state.  \<open>replicas\<close> is set to 100 by the constructor and never assigned
  again.
\<close>

record ConsistentHashStrategy =
  replicas :: nat
  ring :: "uint32 \<rightharpoonup> BucketInfo"
  nodes :: "uint32 list"

definition NewConsistentHashStrategy :: ConsistentHashStrategy where
  "NewConsistentHashStrategy = \<lparr>replicas = 100, ring = Map.empty, nodes = []\<rparr>"

text \<open>
  The body of the inner loop of \<open>updateRing\<close>, on the pair of \<open>s.ring\<close> and \<open>s.nodes\<close>;
  then both loops; then \<open>updateRing\<close>, which starts from an empty ring and sorts the
  nodes at the end.
\<close>

definition add_virtual_node ::
  "BucketInfo \<Rightarrow> nat \<Rightarrow> (uint32 \<rightharpoonup> BucketInfo) \<times> uint32 list \<Rightarrow> (uint32 \<rightharpoonup> BucketInfo) \<times> uint32 list" where
  "add_virtual_node b i rn =
     (case rn of (r, ns) \<Rightarrow>
        let h = hash (virtualKey (Name (Config b)) i)
        in (r(h \<mapsto> b), ns @ [h]))"

definition add_buckets ::
  "nat \<Rightarrow> BucketInfo list \<Rightarrow> (uint32 \<rightharpoonup> BucketInfo) \<times> uint32 list \<Rightarrow> (uint32 \<rightharpoonup> BucketInfo) \<times> uint32 list" where
  "add_buckets reps buckets rn = fold (\<lambda>b. fold (add_virtual_node b) [0..<reps]) buckets rn"

definition updateRing ::
  "((uint32 \<Rightarrow> uint32 \<Rightarrow> bool) \<Rightarrow> uint32 list \<Rightarrow> uint32 list)
     \<Rightarrow> ConsistentHashStrategy \<Rightarrow> BucketInfo list \<Rightarrow> ConsistentHashStrategy" where
  "updateRing sort_Slice s buckets =
     (case add_buckets (replicas s) buckets (Map.empty, []) of
        (r, ns) \<Rightarrow> s\<lparr>ring := r, nodes := sort_Slice (\<lambda>x y. x < y) ns\<rparr>)"

text \<open>
  \<open>SelectBucket\<close>.  \<open>s.ring[h]\<close> of an absent key is a nil pointer, returned with a nil
  error: \<open>NilBucket\<close>.
\<close>

datatype 'a selected = Selected 'a | NilBucket

definition ConsistentHash_SelectBucket ::
  "((uint32 \<Rightarrow> uint32 \<Rightarrow> bool) \<Rightarrow> uint32 list \<Rightarrow> uint32 list)
     \<Rightarrow> ConsistentHashStrategy \<Rightarrow> BucketInfo list \<Rightarrow> string \<Rightarrow> int64
     \<Rightarrow> (error + BucketInfo selected) \<times> ConsistentHashStrategy" where
  "ConsistentHash_SelectBucket sort_Slice s buckets key sz =
     (if length buckets = 0 then (Inl ErrNoBuckets, s)
      else
        let s' = updateRing sort_Slice s buckets;
            h = hash key;
            idx = sort_Search (length (nodes s')) (\<lambda>i. nodes s' ! i \<ge> h);
            idx' = (if idx = length (nodes s') then 0 else idx)
        in if idx' < length (nodes s') then
             (case ring s' (nodes s' ! idx') of
                Some b \<Rightarrow> (Inr (Selected b), s')
              | None \<Rightarrow> (Inr NilBucket, s'))
           else (Inl (Panic ''index out of range''), s'))"

section \<open>Balancer\<close>

text \<open>
  The four implementations of the \<open>Strategy\<close> interface with their state, and the
  standard-library routines they call: \<open>sort.Slice\<close> on a slice of buckets and on a slice
  of ring nodes, and \<open>rand.Intn\<close>.
\<close>

datatype Strategy =
    RoundRobin RoundRobinStrategy
  | LeastSpace
  | Weighted
  | ConsistentHash ConsistentHashStrategy

record stdlib =
  sort_Slice_buckets :: "(BucketInfo \<Rightarrow> BucketInfo \<Rightarrow> bool) \<Rightarrow> BucketInfo list \<Rightarrow> BucketInfo list"
  sort_Slice_nodes :: "(uint32 \<Rightarrow> uint32 \<Rightarrow> bool) \<Rightarrow> uint32 list \<Rightarrow> uint32 list"
  Intn :: "int64 \<Rightarrow> int64"

definition returned :: "error + BucketInfo \<Rightarrow> error + BucketInfo selected" where
  "returned r = (case r of Inl e \<Rightarrow> Inl e | Inr b \<Rightarrow> Inr (Selected b))"

text \<open>\<open>b.strategy.SelectBucket(availableBuckets, key, size)\<close>, by dynamic dispatch.\<close>

definition Strategy_SelectBucket ::
  "stdlib \<Rightarrow> Strategy \<Rightarrow> BucketInfo list \<Rightarrow> string \<Rightarrow> int64
     \<Rightarrow> (error + BucketInfo selected) \<times> Strategy" where
  "Strategy_SelectBucket lib st buckets key sz =
     (case st of
        RoundRobin s \<Rightarrow>
          (case RoundRobin_SelectBucket s buckets key sz of (r, s') \<Rightarrow> (returned r, RoundRobin s'))
      | LeastSpace \<Rightarrow>
          (returned (LeastSpace_SelectBucket (sort_Slice_buckets lib) buckets key sz), LeastSpace)
      | Weighted \<Rightarrow>
          (returned (Weighted_SelectBucket (Intn lib) buckets key sz), Weighted)
      | ConsistentHash s \<Rightarrow>
          (case ConsistentHash_SelectBucket (sort_Slice_nodes lib) s buckets key sz of
             (r, s') \<Rightarrow> (r, ConsistentHash s')))"

definition Strategy_Name :: "Strategy \<Rightarrow> string" where
  "Strategy_Name st =
     (case st of
        RoundRobin s \<Rightarrow> ''round-robin''
      | LeastSpace \<Rightarrow> ''least-space''
      | Weighted \<Rightarrow> ''weighted''
      | ConsistentHash s \<Rightarrow> ''consistent-hash'')"

record Balancer =
  manager :: Manager
  strategy :: Strategy

text \<open>\<open>NewBalancer(manager, cfg)\<close>, with \<open>cfg.Strategy\<close> as the second argument.\<close>

definition NewBalancer :: "Manager \<Rightarrow> string \<Rightarrow> error + Balancer" where
  "NewBalancer m cfg_Strategy =
     (if cfg_Strategy = ''round-robin'' then
        Inr \<lparr>manager = m, strategy = RoundRobin NewRoundRobinStrategy\<rparr>
      else if cfg_Strategy = ''least-space'' then
        Inr \<lparr>manager = m, strategy = LeastSpace\<rparr>
      else if cfg_Strategy = ''weighted'' then
        Inr \<lparr>manager = m, strategy = Weighted\<rparr>
      else if cfg_Strategy = ''consistent-hash'' then
        Inr \<lparr>manager = m, strategy = ConsistentHash NewConsistentHashStrategy\<rparr>
      else Inl (ErrUnknownStrategy cfg_Strategy))"

text \<open>The filter of \<open>Balancer.SelectBucket\<close>: \<open>bucket.GetAvailableSpace() >= size\<close>.\<close>

definition has_space :: "int64 \<Rightarrow> BucketInfo \<Rightarrow> bool" where
  "has_space sz bucket = (sint (GetAvailableSpace bucket) \<ge> sint sz)"

definition Balancer_SelectBucket ::
  "stdlib \<Rightarrow> Balancer \<Rightarrow> string \<Rightarrow> int64 \<Rightarrow> (error + BucketInfo selected) \<times> Balancer" where
  "Balancer_SelectBucket lib b key sz =
     (let buckets = GetAvailableBuckets (manager b) in
      if length buckets = 0 then (Inl ErrNoAvailableBuckets, b)
      else
        let availableBuckets = filter (has_space sz) buckets in
        if length availableBuckets = 0 then (Inl (ErrNotEnoughSpace sz), b)
        else
          (case Strategy_SelectBucket lib (strategy b) availableBuckets key sz of
             (Inl err, st') \<Rightarrow> (Inl err, b\<lparr>strategy := st'\<rparr>)
           | (Inr selected, st') \<Rightarrow> (Inr selected, b\<lparr>strategy := st'\<rparr>)))"

section \<open>Go's implementation of \<open>sort.Slice\<close>\<close>

text \<open>
  The pattern-defeating quicksort of package \<open>sort\<close> (\<open>zsortfunc.go\<close>, Go 1.19 and
  later), on a list with Go's \<open>int\<close> indices.  \<open>less_fn x y\<close> is the caller's
  \<open>less(i, j)\<close> on the elements at \<open>i\<close> and \<open>j\<close>; \<open>Swap\<close> exchanges two positions.
\<close>

definition Swap :: "'a list \<Rightarrow> int \<Rightarrow> int \<Rightarrow> 'a list" where
  "Swap data i j = data[nat i := data ! nat j, nat j := data ! nat i]"

function insertionSort_inner :: "('a \<Rightarrow> 'a \<Rightarrow> bool) \<Rightarrow> 'a list \<Rightarrow> int \<Rightarrow> int \<Rightarrow> 'a list" where
  "insertionSort_inner less_fn data a j =
     (if j > a \<and> less_fn (data ! nat j) (data ! nat (j - 1))
      then insertionSort_inner less_fn (Swap data j (j - 1)) a (j - 1)
      else data)"
  by pat_completeness auto

termination
  by (relation "measure (\<lambda>(less_fn, data, a, j). nat (j - a))") auto

declare insertionSort_inner.simps [simp del]

function insertionSort_outer :: "('a \<Rightarrow> 'a \<Rightarrow> bool) \<Rightarrow> 'a list \<Rightarrow> int \<Rightarrow> int \<Rightarrow> int \<Rightarrow> 'a list" where
  "insertionSort_outer less_fn data a b i =
     (if i < b then insertionSort_outer less_fn (insertionSort_inner less_fn data a i) a b (i + 1)
      else data)"
  by pat_completeness auto

termination
  by (relation "measure (\<lambda>(less_fn, data, a, b, i). nat (b - i))") auto

declare insertionSort_outer.simps [simp del]

definition insertionSort_func :: "('a \<Rightarrow> 'a \<Rightarrow> bool) \<Rightarrow> 'a list \<Rightarrow> int \<Rightarrow> int \<Rightarrow> 'a list" where
  "insertionSort_func less_fn data a b = insertionSort_outer less_fn data a b (a + 1)"

function siftDown_func :: "('a \<Rightarrow> 'a \<Rightarrow> bool) \<Rightarrow> 'a list \<Rightarrow> int \<Rightarrow> int \<Rightarrow> int \<Rightarrow> 'a list" where
  "siftDown_func less_fn data lo hi first =
     (let root = lo; child = 2 * root + 1 in
      if child \<ge> hi \<or> root < 0 then data
      else
        let child = (if child + 1 < hi \<and>
                        less_fn (data ! nat (first + child)) (data ! nat (first + child + 1))
                     then child + 1 else child)
        in if \<not> less_fn (data ! nat (first + root)) (data ! nat (first + child)) then data
           else siftDown_func less_fn (Swap data (first + root) (first + child)) child hi first)"
  by pat_completeness auto

termination
  by (relation "measure (\<lambda>(less_fn, data, lo, hi, first). nat (hi - lo))") (auto simp: Let_def)

declare siftDown_func.simps [simp del]

text \<open>
  The two loops of \<open>heapSort_func\<close>, counting \<open>i\<close> down to 0: build the heap, then pop the
  elements into the end of the range.
\<close>

function heapSort_build :: "('a \<Rightarrow> 'a \<Rightarrow> bool) \<Rightarrow> 'a list \<Rightarrow> int \<Rightarrow> int \<Rightarrow> int \<Rightarrow> 'a list" where
  "heapSort_build less_fn data hi first i =
     (if i \<ge> 0 then heapSort_build less_fn (siftDown_func less_fn data i hi first) hi first (i - 1)
      else data)"
  by pat_completeness auto

termination
  by (relation "measure (\<lambda>(less_fn, data, hi, first, i). nat (i + 1))") auto

declare heapSort_build.simps [simp del]

function heapSort_pop :: "('a \<Rightarrow> 'a \<Rightarrow> bool) \<Rightarrow> 'a list \<Rightarrow> int \<Rightarrow> int \<Rightarrow> int \<Rightarrow> 'a list" where
  "heapSort_pop less_fn data lo first i =
     (if i \<ge> 0 then
        heapSort_pop less_fn (siftDown_func less_fn (Swap data first (first + i)) lo i first)
          lo first (i - 1)
      else data)"
  by pat_completeness auto

termination
  by (relation "measure (\<lambda>(less_fn, data, lo, first, i). nat (i + 1))") auto

declare heapSort_pop.simps [simp del]

text \<open>Go's integer division truncates towards zero.\<close>

definition quot :: "int \<Rightarrow> int \<Rightarrow> int" where
  "quot x y = sgn x * sgn y * (\<bar>x\<bar> div \<bar>y\<bar>)"

definition heapSort_func :: "('a \<Rightarrow> 'a \<Rightarrow> bool) \<Rightarrow> 'a list \<Rightarrow> int \<Rightarrow> int \<Rightarrow> 'a list" where
  "heapSort_func less_fn data a b =
     (let first = a; lo = 0; hi = b - a;
          data = heapSort_build less_fn data hi first (quot (hi - 1) 2)
      in heapSort_pop less_fn data lo first (hi - 1))"

text \<open>
  \<open>partition_func\<close>.  The two scanning loops return the new \<open>i\<close> and the new \<open>j\<close>; the
  pivot is at \<open>a\<close> while they run.
\<close>

function partition_left :: "('a \<Rightarrow> 'a \<Rightarrow> bool) \<Rightarrow> 'a list \<Rightarrow> int \<Rightarrow> int \<Rightarrow> int \<Rightarrow> int" where
  "partition_left less_fn data a i j =
     (if i \<le> j \<and> less_fn (data ! nat i) (data ! nat a) then partition_left less_fn data a (i + 1) j
      else i)"
  by pat_completeness auto

termination
  by (relation "measure (\<lambda>(less_fn, data, a, i, j). nat (j + 1 - i))") auto

declare partition_left.simps [simp del]

function partition_right :: "('a \<Rightarrow> 'a \<Rightarrow> bool) \<Rightarrow> 'a list \<Rightarrow> int \<Rightarrow> int \<Rightarrow> int \<Rightarrow> int" where
  "partition_right less_fn data a i j =
     (if i \<le> j \<and> \<not> less_fn (data ! nat j) (data ! nat a) then partition_right less_fn data a i (j - 1)
      else j)"
  by pat_completeness auto

termination
  by (relation "measure (\<lambda>(less_fn, data, a, i, j). nat (j + 1 - i))") auto

declare partition_right.simps [simp del]

function partition_loop ::
  "('a \<Rightarrow> 'a \<Rightarrow> bool) \<Rightarrow> 'a list \<Rightarrow> int \<Rightarrow> int \<Rightarrow> int \<Rightarrow> 'a list \<times> int \<times> int" where
  "partition_loop less_fn data a i j =
     (let i = partition_left less_fn data a i j;
          j = partition_right less_fn data a i j
      in if i > j then (data, i, j)
         else partition_loop less_fn (Swap data i j) a (i + 1) (j - 1))"
  by pat_completeness auto

lemma partition_left_ge: "i \<le> partition_left less_fn data a i j"
  by (induction less_fn data a i j rule: partition_left.induct)
     (subst partition_left.simps, auto)

lemma partition_right_le: "partition_right less_fn data a i j \<le> j"
  by (induction less_fn data a i j rule: partition_right.induct)
     (subst partition_right.simps, auto)

termination partition_loop
proof (relation "measure (\<lambda>(less_fn, data, a, i, j). nat (j + 1 - i))", goal_cases)
  case 1
  show ?case by simp
next
  case (2 less_fn data a i j i' j')
  have "i \<le> i'" unfolding 2(1) by (rule partition_left_ge)
  moreover have "j' \<le> j" unfolding 2(2) by (rule partition_right_le)
  ultimately show ?case using 2(3) by simp
qed

declare partition_loop.simps [simp del]

definition partition_func ::
  "('a \<Rightarrow> 'a \<Rightarrow> bool) \<Rightarrow> 'a list \<Rightarrow> int \<Rightarrow> int \<Rightarrow> int \<Rightarrow> 'a list \<times> int \<times> bool" where
  "partition_func less_fn data a b pivot =
     (let data = Swap data a pivot;
          i = a + 1; j = b - 1;
          i = partition_left less_fn data a i j;
          j = partition_right less_fn data a i j
      in if i > j then (Swap data j a, j, True)
         else
           let data = Swap data i j;
               i = i + 1; j = j - 1
           in case partition_loop less_fn data a i j of
                (data, i, j) \<Rightarrow> (Swap data j a, j, False))"

text \<open>\<open>partitionEqual_func\<close>: its two scanning loops, the outer loop (it returns \<open>i\<close>).\<close>

function partitionEqual_left :: "('a \<Rightarrow> 'a \<Rightarrow> bool) \<Rightarrow> 'a list \<Rightarrow> int \<Rightarrow> int \<Rightarrow> int \<Rightarrow> int" where
  "partitionEqual_left less_fn data a i j =
     (if i \<le> j \<and> \<not> less_fn (data ! nat a) (data ! nat i)
      then partitionEqual_left less_fn data a (i + 1) j
      else i)"
  by pat_completeness auto

termination
  by (relation "measure (\<lambda>(less_fn, data, a, i, j). nat (j + 1 - i))") auto

declare partitionEqual_left.simps [simp del]

function partitionEqual_right :: "('a \<Rightarrow> 'a \<Rightarrow> bool) \<Rightarrow> 'a list \<Rightarrow> int \<Rightarrow> int \<Rightarrow> int \<Rightarrow> int" where
  "partitionEqual_right less_fn data a i j =
     (if i \<le> j \<and> less_fn (data ! nat a) (data ! nat j)
      then partitionEqual_right less_fn data a i (j - 1)
      else j)"
  by pat_completeness auto

termination
  by (relation "measure (\<lambda>(less_fn, data, a, i, j). nat (j + 1 - i))") auto

declare partitionEqual_right.simps [simp del]

function partitionEqual_loop ::
  "('a \<Rightarrow> 'a \<Rightarrow> bool) \<Rightarrow> 'a list \<Rightarrow> int \<Rightarrow> int \<Rightarrow> int \<Rightarrow> 'a list \<times> int" where
  "partitionEqual_loop less_fn data a i j =
     (let i = partitionEqual_left less_fn data a i j;
          j = partitionEqual_right less_fn data a i j
      in if i > j then (data, i)
         else partitionEqual_loop less_fn (Swap data i j) a (i + 1) (j - 1))"
  by pat_completeness auto

lemma partitionEqual_left_ge: "i \<le> partitionEqual_left less_fn data a i j"
  by (induction less_fn data a i j rule: partitionEqual_left.induct)
     (subst partitionEqual_left.simps, auto)

lemma partitionEqual_right_le: "partitionEqual_right less_fn data a i j \<le> j"
  by (induction less_fn data a i j rule: partitionEqual_right.induct)
     (subst partitionEqual_right.simps, auto)

termination partitionEqual_loop
proof (relation "measure (\<lambda>(less_fn, data, a, i, j). nat (j + 1 - i))", goal_cases)
  case 1
  show ?case by simp
next
  case (2 less_fn data a i j i' j')
  have "i \<le> i'" unfolding 2(1) by (rule partitionEqual_left_ge)
  moreover have "j' \<le> j" unfolding 2(2) by (rule partitionEqual_right_le)
  ultimately show ?case using 2(3) by simp
qed

declare partitionEqual_loop.simps [simp del]

definition partitionEqual_func ::
  "('a \<Rightarrow> 'a \<Rightarrow> bool) \<Rightarrow> 'a list \<Rightarrow> int \<Rightarrow> int \<Rightarrow> int \<Rightarrow> 'a list \<times> int" where
  "partitionEqual_func less_fn data a b pivot =
     (let data = Swap data a pivot;
          i = a + 1; j = b - 1
      in partitionEqual_loop less_fn data a i j)"

text \<open>
  \<open>partialInsertionSort_func\<close>: the scan for the next out-of-order pair, the two shifting
  loops, and the loop over at most \<open>maxSteps = 5\<close> steps (\<open>steps\<close> counts the ones left).
\<close>

function partialInsertionSort_scan :: "('a \<Rightarrow> 'a \<Rightarrow> bool) \<Rightarrow> 'a list \<Rightarrow> int \<Rightarrow> int \<Rightarrow> int" where
  "partialInsertionSort_scan less_fn data b i =
     (if i < b \<and> \<not> less_fn (data ! nat i) (data ! nat (i - 1))
      then partialInsertionSort_scan less_fn data b (i + 1)
      else i)"
  by pat_completeness auto

termination
  by (relation "measure (\<lambda>(less_fn, data, b, i). nat (b - i))") auto

declare partialInsertionSort_scan.simps [simp del]

function shift_left :: "('a \<Rightarrow> 'a \<Rightarrow> bool) \<Rightarrow> 'a list \<Rightarrow> int \<Rightarrow> 'a list" where
  "shift_left less_fn data j =
     (if j \<ge> 1 then
        if \<not> less_fn (data ! nat j) (data ! nat (j - 1)) then data
        else shift_left less_fn (Swap data j (j - 1)) (j - 1)
      else data)"
  by pat_completeness auto

termination
  by (relation "measure (\<lambda>(less_fn, data, j). nat j)") auto

declare shift_left.simps [simp del]

function shift_right :: "('a \<Rightarrow> 'a \<Rightarrow> bool) \<Rightarrow> 'a list \<Rightarrow> int \<Rightarrow> int \<Rightarrow> 'a list" where
  "shift_right less_fn data b j =
     (if j < b then
        if \<not> less_fn (data ! nat j) (data ! nat (j - 1)) then data
        else shift_right less_fn (Swap data j (j - 1)) b (j + 1)
      else data)"
  by pat_completeness auto

termination
  by (relation "measure (\<lambda>(less_fn, data, b, j). nat (b - j))") auto

declare shift_right.simps [simp del]

fun partialInsertionSort_steps ::
  "nat \<Rightarrow> ('a \<Rightarrow> 'a \<Rightarrow> bool) \<Rightarrow> 'a list \<Rightarrow> int \<Rightarrow> int \<Rightarrow> int \<Rightarrow> 'a list \<times> bool" where
  "partialInsertionSort_steps 0 less_fn data a b i = (data, False)"
| "partialInsertionSort_steps (Suc steps) less_fn data a b i =
     (let i = partialInsertionSort_scan less_fn data b i in
      if i = b then (data, True)
      else if b - a < 50 then (data, False)
      else
        let data = Swap data i (i - 1);
            data = (if i - a \<ge> 2 then shift_left less_fn data (i - 1) else data);
            data = (if b - i \<ge> 2 then shift_right less_fn data b (i + 1) else data)
        in partialInsertionSort_steps steps less_fn data a b i)"

definition partialInsertionSort_func ::
  "('a \<Rightarrow> 'a \<Rightarrow> bool) \<Rightarrow> 'a list \<Rightarrow> int \<Rightarrow> int \<Rightarrow> 'a list \<times> bool" where
  "partialInsertionSort_func less_fn data a b = partialInsertionSort_steps 5 less_fn data a b (a + 1)"

text \<open>
  \<open>breakPatterns_func\<close> with its \<open>xorshift\<close> generator, \<open>bits.Len\<close> and
  \<open>nextPowerOfTwo\<close>.
\<close>

definition xorshift_Next :: "uint64 \<Rightarrow> uint64" where
  "xorshift_Next r =
     (let r = r XOR push_bit 13 r;
          r = r XOR drop_bit 17 r;
          r = r XOR push_bit 5 r
      in r)"

function bits_Len :: "nat \<Rightarrow> nat" where
  "bits_Len n = (if n = 0 then 0 else 1 + bits_Len (n div 2))"
  by pat_completeness auto

termination
  by (relation "measure id") auto

declare bits_Len.simps [simp del]

definition nextPowerOfTwo :: "int \<Rightarrow> uint64" where
  "nextPowerOfTwo length' = push_bit (bits_Len (nat length')) 1"

fun breakPatterns_loop ::
  "nat \<Rightarrow> 'a list \<Rightarrow> int \<Rightarrow> int \<Rightarrow> int \<Rightarrow> uint64 \<Rightarrow> uint64 \<Rightarrow> int \<Rightarrow> 'a list" where
  "breakPatterns_loop 0 data a length' idx modulus random i = data"
| "breakPatterns_loop (Suc k) data a length' idx modulus random i =
     (let random = xorshift_Next random;
          other = uint (random AND (modulus - 1));
          other = (if other \<ge> length' then other - length' else other)
      in breakPatterns_loop k (Swap data (idx - 1 + i) (a + other)) a length' idx modulus random (i + 1))"

definition breakPatterns_func :: "'a list \<Rightarrow> int \<Rightarrow> int \<Rightarrow> 'a list" where
  "breakPatterns_func data a b =
     (let length' = b - a in
      if length' \<ge> 8 then
        let random = word_of_int length';
            modulus = nextPowerOfTwo length';
            idx = a + (quot length' 4) * 2 - 1
        in breakPatterns_loop 3 data a length' idx modulus random 0
      else data)"

text \<open>\<open>choosePivot_func\<close> and the medians; \<open>swaps\<close> is threaded through.\<close>

datatype sortedHint = unknownHint | increasingHint | decreasingHint

definition order2_func ::
  "('a \<Rightarrow> 'a \<Rightarrow> bool) \<Rightarrow> 'a list \<Rightarrow> int \<Rightarrow> int \<Rightarrow> nat \<Rightarrow> (int \<times> int) \<times> nat" where
  "order2_func less_fn data a b swaps =
     (if less_fn (data ! nat b) (data ! nat a) then ((b, a), swaps + 1) else ((a, b), swaps))"

definition median_func ::
  "('a \<Rightarrow> 'a \<Rightarrow> bool) \<Rightarrow> 'a list \<Rightarrow> int \<Rightarrow> int \<Rightarrow> int \<Rightarrow> nat \<Rightarrow> int \<times> nat" where
  "median_func less_fn data a b c swaps =
     (case order2_func less_fn data a b swaps of ((a, b), swaps) \<Rightarrow>
      case order2_func less_fn data b c swaps of ((b, c), swaps) \<Rightarrow>
      case order2_func less_fn data a b swaps of ((a, b), swaps) \<Rightarrow>
        (b, swaps))"

definition medianAdjacent_func ::
  "('a \<Rightarrow> 'a \<Rightarrow> bool) \<Rightarrow> 'a list \<Rightarrow> int \<Rightarrow> nat \<Rightarrow> int \<times> nat" where
  "medianAdjacent_func less_fn data a swaps = median_func less_fn data (a - 1) a (a + 1) swaps"

definition choosePivot_func ::
  "('a \<Rightarrow> 'a \<Rightarrow> bool) \<Rightarrow> 'a list \<Rightarrow> int \<Rightarrow> int \<Rightarrow> int \<times> sortedHint" where
  "choosePivot_func less_fn data a b =
     (let l = b - a;
          swaps = 0;
          i = a + quot l 4 * 1;
          j = a + quot l 4 * 2;
          k = a + quot l 4 * 3;
          (j, swaps) =
            (if l \<ge> 8 then
               let (i, j, k, swaps) =
                     (if l \<ge> 50 then
                        case medianAdjacent_func less_fn data i swaps of (i, swaps) \<Rightarrow>
                        case medianAdjacent_func less_fn data j swaps of (j, swaps) \<Rightarrow>
                        case medianAdjacent_func less_fn data k swaps of (k, swaps) \<Rightarrow>
                          (i, j, k, swaps)
                      else (i, j, k, swaps))
               in median_func less_fn data i j k swaps
             else (j, swaps))
      in if swaps = 0 then (j, increasingHint)
         else if swaps = 12 then (j, decreasingHint)
         else (j, unknownHint))"

function reverseRange_loop :: "'a list \<Rightarrow> int \<Rightarrow> int \<Rightarrow> 'a list" where
  "reverseRange_loop data i j =
     (if i < j then reverseRange_loop (Swap data i j) (i + 1) (j - 1) else data)"
  by pat_completeness auto

termination
  by (relation "measure (\<lambda>(data, i, j). nat (j - i))") auto

declare reverseRange_loop.simps [simp del]

definition reverseRange_func :: "'a list \<Rightarrow> int \<Rightarrow> int \<Rightarrow> 'a list" where
  "reverseRange_func data a b = reverseRange_loop data a (b - 1)"

text \<open>Where the partitions end: needed for the termination of \<open>pdqsort_func\<close>.\<close>

lemma partition_right_ge: "min j (i - 1) \<le> partition_right less_fn data a i j"
  by (induction less_fn data a i j rule: partition_right.induct)
     (subst partition_right.simps, auto)

lemma partition_loop_bounds:
  "partition_loop less_fn data a i j = (data', i', j') \<Longrightarrow> min j (i - 1) \<le> j' \<and> j' \<le> j"
proof (induction less_fn data a i j arbitrary: data' i' j' rule: partition_loop.induct)
  case (1 less_fn data a i j)
  let ?i1 = "partition_left less_fn data a i j"
  let ?j1 = "partition_right less_fn data a ?i1 j"
  have i1: "i \<le> ?i1" by (rule partition_left_ge)
  have j1: "min j (?i1 - 1) \<le> ?j1" "?j1 \<le> j"
    by (rule partition_right_ge, rule partition_right_le)
  show ?case
  proof (cases "?i1 > ?j1")
    case True
    then have "j' = ?j1" using "1.prems" by (subst (asm) partition_loop.simps) (auto simp: Let_def)
    then show ?thesis using i1 j1 by auto
  next
    case False
    then have rec: "partition_loop less_fn (Swap data ?i1 ?j1) a (?i1 + 1) (?j1 - 1) = (data', i', j')"
      using "1.prems" by (subst (asm) partition_loop.simps) (simp add: Let_def)
    have "min (?j1 - 1) (?i1 + 1 - 1) \<le> j' \<and> j' \<le> ?j1 - 1"
      using "1.IH" [OF refl refl _ rec] False by simp
    then show ?thesis using i1 j1 False by auto
  qed
qed

lemma partition_func_mid:
  assumes "partition_func less_fn data a b pivot = (data', mid, p)" "a < b"
  shows "a \<le> mid \<and> mid < b"
proof -
  let ?d = "Swap data a pivot"
  let ?i1 = "partition_left less_fn ?d a (a + 1) (b - 1)"
  let ?j1 = "partition_right less_fn ?d a ?i1 (b - 1)"
  have i1: "a + 1 \<le> ?i1" by (rule partition_left_ge)
  have j1: "min (b - 1) (?i1 - 1) \<le> ?j1" "?j1 \<le> b - 1"
    by (rule partition_right_ge, rule partition_right_le)
  show ?thesis
  proof (cases "?i1 > ?j1")
    case True
    then have "mid = ?j1" using assms(1) by (simp add: partition_func_def Let_def)
    then show ?thesis using i1 j1 assms(2) by auto
  next
    case False
    obtain d2 i2 j2 where l: "partition_loop less_fn (Swap ?d ?i1 ?j1) a (?i1 + 1) (?j1 - 1) = (d2, i2, j2)"
      by (metis prod_cases3)
    from False l assms(1) have "mid = j2" by (simp add: partition_func_def Let_def)
    moreover from partition_loop_bounds [OF l] have "min (?j1 - 1) (?i1 + 1 - 1) \<le> j2 \<and> j2 \<le> ?j1 - 1" .
    ultimately show ?thesis using i1 j1 False by auto
  qed
qed

lemma partitionEqual_loop_ge:
  "partitionEqual_loop less_fn data a i j = (data', mid) \<Longrightarrow> i \<le> mid"
proof (induction less_fn data a i j arbitrary: data' mid rule: partitionEqual_loop.induct)
  case (1 less_fn data a i j)
  let ?i1 = "partitionEqual_left less_fn data a i j"
  let ?j1 = "partitionEqual_right less_fn data a ?i1 j"
  have i1: "i \<le> ?i1" by (rule partitionEqual_left_ge)
  show ?case
  proof (cases "?i1 > ?j1")
    case True
    then have "mid = ?i1" using "1.prems" by (subst (asm) partitionEqual_loop.simps) (auto simp: Let_def)
    then show ?thesis using i1 by simp
  next
    case False
    then have rec: "partitionEqual_loop less_fn (Swap data ?i1 ?j1) a (?i1 + 1) (?j1 - 1) = (data', mid)"
      using "1.prems" by (subst (asm) partitionEqual_loop.simps) (simp add: Let_def)
    have "?i1 + 1 \<le> mid" using "1.IH" [OF refl refl _ rec] False by simp
    then show ?thesis using i1 by simp
  qed
qed

lemma partitionEqual_func_mid:
  "partitionEqual_func less_fn data a b pivot = (data', mid) \<Longrightarrow> a < mid"
  using partitionEqual_loop_ge [of less_fn "Swap data a pivot" a "a + 1" "b - 1" data' mid]
  by (simp add: partitionEqual_func_def Let_def)

lemma partition_func_mid':
  "(data', mid, p) = partition_func less_fn data a b pivot \<Longrightarrow> \<not> b - a \<le> 12 \<Longrightarrow> a \<le> mid \<and> mid < b"
  using partition_func_mid [of less_fn data a b pivot data' mid p] by simp

lemma partitionEqual_func_mid':
  "(data', mid) = partitionEqual_func less_fn data a b pivot \<Longrightarrow> a < mid"
  using partitionEqual_func_mid [of less_fn data a b pivot data' mid] by simp

text \<open>
  \<open>pdqsort_func\<close>: the loop with its variables \<open>a\<close>, \<open>b\<close>, \<open>limit\<close>, \<open>wasBalanced\<close> and
  \<open>wasPartitioned\<close> as arguments; a recursive call of the Go function starts it with
  both flags set.
\<close>

function pdqsort_loop ::
  "('a \<Rightarrow> 'a \<Rightarrow> bool) \<Rightarrow> 'a list \<Rightarrow> int \<Rightarrow> int \<Rightarrow> int \<Rightarrow> bool \<Rightarrow> bool \<Rightarrow> 'a list" where
  "pdqsort_loop less_fn data a b limit wasBalanced wasPartitioned =
     (let length' = b - a in
      if length' \<le> 12 then insertionSort_func less_fn data a b
      else if limit = 0 then heapSort_func less_fn data a b
      else
        let (data, limit) =
              (if \<not> wasBalanced then (breakPatterns_func data a b, limit - 1) else (data, limit));
            (pivot, hint) = choosePivot_func less_fn data a b;
            (data, pivot, hint) =
              (if hint = decreasingHint
               then (reverseRange_func data a b, (b - 1) - (pivot - a), increasingHint)
               else (data, pivot, hint));
            (data, sorted) =
              (if wasBalanced \<and> wasPartitioned \<and> hint = increasingHint
               then partialInsertionSort_func less_fn data a b
               else (data, False))
        in if sorted then data
           else if a > 0 \<and> \<not> less_fn (data ! nat (a - 1)) (data ! nat pivot) then
             (case partitionEqual_func less_fn data a b pivot of
                (data, mid) \<Rightarrow> pdqsort_loop less_fn data mid b limit wasBalanced wasPartitioned)
           else
             (case partition_func less_fn data a b pivot of
                (data, mid, alreadyPartitioned) \<Rightarrow>
                  let wasPartitioned = alreadyPartitioned;
                      leftLen = mid - a; rightLen = b - mid;
                      balanceThreshold = quot length' 8
                  in if leftLen < rightLen then
                       let wasBalanced = (leftLen \<ge> balanceThreshold);
                           data = pdqsort_loop less_fn data a mid limit True True
                       in pdqsort_loop less_fn data (mid + 1) b limit wasBalanced wasPartitioned
                     else
                       let wasBalanced = (rightLen \<ge> balanceThreshold);
                           data = pdqsort_loop less_fn data (mid + 1) b limit True True
                       in pdqsort_loop less_fn data a mid limit wasBalanced wasPartitioned))"
  by pat_completeness auto

termination
  by (relation "measure (\<lambda>(less_fn, data, a, b, limit, wb, wp). nat (b - a))")
     (auto simp: Let_def dest: partition_func_mid' partitionEqual_func_mid')

declare pdqsort_loop.simps [simp del]

definition pdqsort_func :: "('a \<Rightarrow> 'a \<Rightarrow> bool) \<Rightarrow> 'a list \<Rightarrow> int \<Rightarrow> int \<Rightarrow> int \<Rightarrow> 'a list" where
  "pdqsort_func less_fn data a b limit = pdqsort_loop less_fn data a b limit True True"

text \<open>\<open>sort.Slice\<close> itself.\<close>

definition sort_Slice :: "('a \<Rightarrow> 'a \<Rightarrow> bool) \<Rightarrow> 'a list \<Rightarrow> 'a list" where
  "sort_Slice less_fn x =
     (let length' = int (length x);
          limit = int (bits_Len (nat length'))
      in pdqsort_func less_fn x 0 length' limit)"

text \<open>
  The points of a bucket: the hashes of its \<open>reps\<close> virtual keys, in loop order.  The owner
  of a point among the buckets of a list: the last bucket of the list with that point.
\<close>

definition points :: "nat \<Rightarrow> BucketInfo \<Rightarrow> uint32 list" where
  "points reps b = map (\<lambda>i. hash (virtualKey (Name (Config b)) i)) [0..<reps]"

definition owner :: "nat \<Rightarrow> BucketInfo list \<Rightarrow> uint32 \<Rightarrow> BucketInfo option" where
  "owner reps buckets h = find (\<lambda>b. h \<in> set (points reps b)) (rev buckets)"

text \<open>A procedure that keeps the promise of \<open>sort.Slice\<close>, for the concrete instances: insertion sort.\<close>

fun insert_sorted :: "('a \<Rightarrow> 'a \<Rightarrow> bool) \<Rightarrow> 'a \<Rightarrow> 'a list \<Rightarrow> 'a list" where
  "insert_sorted less_fn x [] = [x]"
| "insert_sorted less_fn x (y # ys) =
     (if less_fn x y then x # y # ys else y # insert_sorted less_fn x ys)"

definition example_sort :: "('a \<Rightarrow> 'a \<Rightarrow> bool) \<Rightarrow> 'a list \<Rightarrow> 'a list" where
  "example_sort less_fn xs = foldr (insert_sorted less_fn) xs []"

text \<open>
  The strategies a balancer can hold: the consistent-hash strategy keeps the
  constructor's \<open>replicas = 100\<close>.
\<close>

definition constructed :: "Strategy \<Rightarrow> bool" where
  "constructed st = (case st of ConsistentHash s \<Rightarrow> replicas s = 100 | _ \<Rightarrow> True)"

text \<open>The library routines for the concrete instances, and the two buckets of the spec's capacity scenario.\<close>

definition example_lib :: stdlib where
  "example_lib = \<lparr>sort_Slice_buckets = example_sort, sort_Slice_nodes = example_sort, Intn = example_rng\<rparr>"

definition bucket_A :: BucketInfo where
  "bucket_A = example_bucket ''A'' 100 1 90"

definition bucket_B :: BucketInfo where
  "bucket_B = example_bucket ''B'' 100 1 50"

text \<open>Thirteen buckets: the fourth and the seventh have 5 bytes free, the others 1.\<close>

definition example_buckets13 :: "BucketInfo list" where
  "example_buckets13 =
     [example_bucket ''b0'' 1 1 0, example_bucket ''b1'' 1 1 0, example_bucket ''b2'' 1 1 0,
      example_bucket ''b3'' 5 1 0, example_bucket ''b4'' 1 1 0, example_bucket ''b5'' 1 1 0,
      example_bucket ''b6'' 5 1 0, example_bucket ''b7'' 1 1 0, example_bucket ''b8'' 1 1 0,
      example_bucket ''b9'' 1 1 0, example_bucket ''b10'' 1 1 0, example_bucket ''b11'' 1 1 0,
      example_bucket ''b12'' 1 1 0]"


section \<open>Properties of the round-robin strategy\<close>

lemma rr_perm_mset:
  assumes "0 < n"
  shows "mset (map (\<lambda>i. (c + i) mod n) [0..<n]) = mset [0..<n::nat]"
proof -
  let ?f = "\<lambda>i. (c + i) mod n"
  have inj: "inj_on ?f {0..<n}"
  proof (rule inj_onI)
    fix x y assume x: "x \<in> {0..<n}" and y: "y \<in> {0..<n}" and e: "?f x = ?f y"
    show "x = y"
    proof (rule ccontr)
      assume ne: "x \<noteq> y"
      have aux: "\<And>a b. a < b \<Longrightarrow> b < n \<Longrightarrow> (c + a) mod n = (c + b) mod n \<Longrightarrow> False"
      proof -
        fix a b :: nat assume ab: "a < b" "b < n" and m: "(c + a) mod n = (c + b) mod n"
        from ab have "c + a \<le> c + b" by simp
        then have "n dvd (c + b) - (c + a)" using m mod_eq_dvd_iff_nat [of "c + a" "c + b" n] by metis
        then have "n dvd b - a" by simp
        moreover have "0 < b - a" "b - a < n" using ab by simp_all
        ultimately show False by (auto dest: dvd_imp_le)
      qed
      from ne have "x < y \<or> y < x" by auto
      then show False using aux [of x y] aux [of y x] x y e by auto
    qed
  qed
  have sub: "?f ` {0..<n} \<subseteq> {0..<n}" using assms by auto
  have "card (?f ` {0..<n}) = card {0..<n}" using inj by (rule card_image)
  with sub have img: "?f ` {0..<n} = {0..<n}" by (simp add: card_subset_eq)
  have "mset (map ?f [0..<n]) = image_mset ?f (mset_set {0..<n})"
    by (simp add: mset_upt)
  also have "\<dots> = mset_set (?f ` {0..<n})" using inj by (rule image_mset_mset_set)
  also have "\<dots> = mset [0..<n]" by (simp add: img mset_upt)
  finally show ?thesis .
qed

lemma rr_nth_mset:
  assumes "xs \<noteq> []"
  shows "mset (map (\<lambda>i. xs ! ((c + i) mod length xs)) [0..<length xs]) = mset xs"
proof -
  have "mset (map (\<lambda>i. xs ! ((c + i) mod length xs)) [0..<length xs])
      = image_mset (nth xs) (mset (map (\<lambda>i. (c + i) mod length xs) [0..<length xs]))"
    by (simp add: image_mset.compositionality comp_def)
  also have "\<dots> = image_mset (nth xs) (mset [0..<length xs])"
    using assms rr_perm_mset [of "length xs" c] by simp
  also have "\<dots> = mset (map (nth xs) [0..<length xs])" by simp
  also have "\<dots> = mset xs" by (simp only: map_nth)
  finally show ?thesis .
qed

lemma rr_index_less:
  fixes c :: uint64
  assumes "0 < n" "n < 2 ^ 64"
  shows "unat (c mod word_of_nat n) < n"
proof -
  have un: "unat (word_of_nat n :: uint64) = n" using assms by (simp add: unat_of_nat)
  have "unat (c mod word_of_nat n) = unat c mod n" by (simp only: unat_mod un)
  then show ?thesis using assms(1) by simp
qed

lemma rr_calls_unfold:
  assumes "buckets \<noteq> []" "length buckets < 2 ^ 64"
  shows "RoundRobin_calls k s buckets =
     (map (\<lambda>i. Inr (buckets ! unat ((counter s + word_of_nat (Suc i)) mod word_of_nat (length buckets)))) [0..<k],
      s\<lparr>counter := counter s + word_of_nat k\<rparr>)"
  using assms
proof (induction k arbitrary: s)
  case 0 then show ?case by simp
next
  case (Suc k)
  have lt: "\<And>c :: uint64. unat (c mod word_of_nat (length buckets)) < length buckets"
    using assms by (intro rr_index_less) simp_all
  have "map (\<lambda>i. Inr (buckets ! unat ((counter s + 1 + word_of_nat (Suc i)) mod word_of_nat (length buckets)))) [0..<k]
     = map (\<lambda>i. Inr (buckets ! unat ((counter s + word_of_nat (Suc i)) mod word_of_nat (length buckets)))) [Suc 0..<Suc k]"
    by (simp only: map_Suc_upt [symmetric] map_map comp_def) (simp add: ac_simps)
  then show ?case using Suc
    by (simp add: RoundRobin_SelectBucket_def Let_def lt upt_rec [of 0 "Suc k"] ac_simps del: upt_Suc)
qed

lemma rr_index:
  fixes c :: uint64
  assumes n: "0 < n" "n < 2 ^ 64"
    and nowrap: "unat c + n < 2 ^ 64 \<or> n dvd 2 ^ 64"
    and i: "i < n"
  shows "unat ((c + word_of_nat (Suc i)) mod word_of_nat n) = (unat c + Suc i) mod n"
proof -
  have un: "unat (word_of_nat n :: uint64) = n" using n by (simp add: unat_of_nat)
  have "unat ((c + word_of_nat (Suc i)) mod word_of_nat n)
      = unat (c + word_of_nat (Suc i)) mod n"
    by (simp only: unat_mod un)
  also have "unat (c + word_of_nat (Suc i)) = (unat c + Suc i) mod 2 ^ 64"
    by (simp add: unat_word_ariths unat_of_nat mod_simps del: of_nat_Suc)
  also have "(unat c + Suc i) mod 2 ^ 64 mod n = (unat c + Suc i) mod n"
  proof (cases "n dvd 2 ^ 64")
    case True then show ?thesis by (rule mod_mod_cancel)
  next
    case False
    with nowrap i have "unat c + Suc i < 2 ^ 64" by simp
    then show ?thesis by simp
  qed
  finally show ?thesis .
qed

text \<open>
  C3 (amended).  Round-robin over a fixed non-empty list of \<open>n\<close> buckets: \<open>n\<close>
  consecutive calls return every bucket of the list exactly once (the multiset of the
  results is the multiset of the list), provided the 64-bit counter does not wrap around
  during these calls (\<open>counter + n < 2^64\<close>) or \<open>n\<close> divides \<open>2^64\<close>.
\<close>

theorem RoundRobin_each_once:
  assumes ne: "buckets \<noteq> []" and len: "length buckets < 2 ^ 63"
    and nowrap: "unat (counter s) + length buckets < 2 ^ 64 \<or> length buckets dvd 2 ^ 64"
  shows "mset (fst (RoundRobin_calls (length buckets) s buckets)) = image_mset Inr (mset buckets)"
proof -
  let ?n = "length buckets"
  have n: "0 < ?n" "?n < 2 ^ 64" using ne len by simp_all
  have "fst (RoundRobin_calls ?n s buckets)
      = map (\<lambda>i. Inr (buckets ! unat ((counter s + word_of_nat (Suc i)) mod word_of_nat ?n))) [0..<?n]"
    by (simp add: rr_calls_unfold [OF ne n(2)])
  also have "\<dots> = map (\<lambda>i. Inr (buckets ! ((unat (counter s) + Suc i) mod ?n))) [0..<?n]"
    by (rule map_cong [OF refl]) (simp add: rr_index [OF n nowrap] del: of_nat_Suc)
  also have "\<dots> = map Inr (map (\<lambda>i. buckets ! ((Suc (unat (counter s)) + i) mod ?n)) [0..<?n])"
    by simp
  finally have "mset (fst (RoundRobin_calls ?n s buckets))
      = image_mset Inr (mset (map (\<lambda>i. buckets ! ((Suc (unat (counter s)) + i) mod ?n)) [0..<?n]))"
    by (simp only: mset_map)
  then show ?thesis by (simp only: rr_nth_mset [OF ne])
qed

text \<open>The theorem at three buckets and counter 7.\<close>

theorem RoundRobin_each_once_witness:
  "mset (fst (RoundRobin_calls 3 \<lparr>counter = 7\<rparr>
            [example_bucket ''a'' 100 1 0, example_bucket ''b'' 100 1 0, example_bucket ''c'' 100 1 0]))
     = image_mset Inr (mset [example_bucket ''a'' 100 1 0, example_bucket ''b'' 100 1 0, example_bucket ''c'' 100 1 0])"
  using RoundRobin_each_once [of "[example_bucket ''a'' 100 1 0, example_bucket ''b'' 100 1 0, example_bucket ''c'' 100 1 0]" "\<lparr>counter = 7\<rparr>"]
  by (simp add: numeral_3_eq_3)

text \<open>
  C3 as stated fails when the counter wraps around: with counter \<open>2^64 - 2\<close> and three
  buckets the three calls read the counter values \<open>2^64 - 1\<close>, \<open>0\<close> and \<open>1\<close>, whose
  remainders by 3 are 0, 0 and 1: the first bucket is returned twice and the third never.
\<close>

theorem RoundRobin_wrap_counterexample:
  "fst (RoundRobin_calls 3 \<lparr>counter = 0xFFFFFFFFFFFFFFFE\<rparr>
            [example_bucket ''a'' 100 1 0, example_bucket ''b'' 100 1 0, example_bucket ''c'' 100 1 0])
     = [Inr (example_bucket ''a'' 100 1 0), Inr (example_bucket ''a'' 100 1 0), Inr (example_bucket ''b'' 100 1 0)]"
  by (simp add: RoundRobin_SelectBucket_def Let_def numeral_3_eq_3)

section \<open>Properties of the basic-auth middleware\<close>









lemma BasicAuth_Next_same:
  "BasicAuth D cfg r = Next r' \<Longrightarrow> r' = r"
  by (auto simp: BasicAuth_def Let_def split: if_splits option.splits prod.splits)






section \<open>Properties of the delete handler\<close>

lemma DeleteObject_idempotent:
  "DeleteObject st key = Inr st' \<Longrightarrow> DeleteObject st' key = Inr st'"
  by (auto simp: DeleteObject_def)

lemma handleDeleteObject_absent:
  "storage h key = None \<Longrightarrow> handleDeleteObject h key = (sendError 404 ''object not found'', h)"
  by (simp add: handleDeleteObject_def GetObjectInfo_def)

lemma handleDeleteObject_present:
  "storage h key = Some info \<Longrightarrow>
     fst (handleDeleteObject h key) = sendJSON 200 [(''message'', ''object deleted successfully'')] \<and>
     storage (snd (handleDeleteObject h key)) = (storage h)(key := None)"
  by (simp add: handleDeleteObject_def GetObjectInfo_def DeleteObject_def Let_def split: option.splits)

text \<open>
  C8 (amended).  The store's \<open>delete\<close> is idempotent: applied twice it succeeds both
  times.  Through \<open>DELETE /api/v1/objects/{key}\<close> the first delete answers 200 if the
  key has a record and 404 if it has none; afterwards the key has no record, and a second
  delete answers 404 "object not found" and changes nothing.
\<close>

theorem handleDeleteObject_twice:
  "status (fst (handleDeleteObject h key)) = (if storage h key = None then 404 else 200) \<and>
   storage (snd (handleDeleteObject h key)) key = None \<and>
   handleDeleteObject (snd (handleDeleteObject h key)) key
     = (sendError 404 ''object not found'', snd (handleDeleteObject h key)) \<and>
   (\<exists>st'. DeleteObject (storage h) key = Inr st' \<and> DeleteObject st' key = Inr st')"
proof -
  have a: "storage (snd (handleDeleteObject h key)) key = None"
  proof (cases "storage h key")
    case None then show ?thesis by (simp add: handleDeleteObject_absent)
  next
    case (Some info) then show ?thesis using handleDeleteObject_present [OF Some] by simp
  qed
  have b: "status (fst (handleDeleteObject h key)) = (if storage h key = None then 404 else 200)"
  proof (cases "storage h key")
    case None then show ?thesis by (simp add: handleDeleteObject_absent sendError_def sendJSON_def)
  next
    case (Some info) then show ?thesis using handleDeleteObject_present [OF Some] by (simp add: sendJSON_def)
  qed
  have c: "\<exists>st'. DeleteObject (storage h) key = Inr st' \<and> DeleteObject st' key = Inr st'"
    by (simp add: DeleteObject_def)
  from a b c handleDeleteObject_absent [OF a] show ?thesis by simp
qed

text \<open>
  C8 as stated fails: after a successful delete of key \<open>x\<close> the second
  \<open>DELETE /api/v1/objects/x\<close> is answered with the error 404 "object not found".
\<close>

theorem handleDeleteObject_second_delete_counterexample:
  "status (fst (handleDeleteObject example_handler ''x'')) = 200 \<and>
   fst (handleDeleteObject (snd (handleDeleteObject example_handler ''x'')) ''x'')
     = \<lparr>status = 404, body = [(''error'', ''object not found'')]\<rparr>"
  by (simp add: handleDeleteObject_def GetObjectInfo_def DeleteObject_def GetBucket_def
        example_handler_def sendError_def sendJSON_def Let_def)

section \<open>Properties of the configuration manager\<close>

text \<open>A field of the struct itself is copied: assigning it in the copy leaves the live value.\<close>

lemma GetConfig_Server_Port_isolated:
  "config m < length (configs h) \<Longrightarrow>
   Server_Port (configs (set_Server_Port (fst (GetConfig m h)) p (snd (GetConfig m h))) ! config m)
     = Server_Port (configs h ! config m)"
  by (simp add: GetConfig_def set_Server_Port_def Let_def nth_append)

text \<open>
  C9 fails on the bucket list.  The copy returned by \<open>GetConfig\<close> shares the backing
  array of \<open>Buckets\<close> with the live configuration: after the caller assigns
  \<open>Buckets[0].Name\<close> in the copy, the live configuration and the next \<open>GetConfig\<close> both
  show the new name.
\<close>

theorem GetConfig_shares_bucket_array:
  "map Name (read_Buckets 0 example_heap) = [''A''] \<and>
   (case GetConfig \<lparr>config = 0\<rparr> example_heap of
      (c, h1) \<Rightarrow>
        (case set_Bucket_Name c 0 ''evil'' h1 of
           None \<Rightarrow> False
         | Some h2 \<Rightarrow>
             map Name (read_Buckets 0 h2) = [''evil''] \<and>
             map Name (read_Buckets (fst (GetConfig \<lparr>config = 0\<rparr> h2)) (snd (GetConfig \<lparr>config = 0\<rparr> h2)))
               = [''evil'']))"
  by (simp add: GetConfig_def set_Bucket_Name_def read_Buckets_def example_heap_def Let_def
        example_bucket_def)

section \<open>Properties of the weighted strategy\<close>

lemma sint_add_in_range:
  fixes a b :: int64
  assumes "- (2 ^ 63) \<le> sint a + sint b" "sint a + sint b < 2 ^ 63"
  shows "sint (a + b) = sint a + sint b"
  using assms by (simp add: sint_word_ariths signed_take_bit_int_eq_self)

lemma total_weight_nonneg: "\<forall>b\<in>set bs. 0 \<le> weight b \<Longrightarrow> 0 \<le> total_weight bs"
  by (induction bs) (auto simp: total_weight_def)

lemma totalWeight_loop_sint:
  assumes "\<forall>b\<in>set bs. 0 \<le> weight b" "0 \<le> sint acc" "sint acc + total_weight bs < 2 ^ 63"
  shows "sint (totalWeight_loop acc bs) = sint acc + total_weight bs"
  using assms
proof (induction bs arbitrary: acc)
  case Nil
  then show ?case by (simp add: total_weight_def)
next
  case (Cons b bs)
  have nn: "0 \<le> total_weight bs" using Cons.prems(1) by (simp add: total_weight_nonneg)
  have wb: "0 \<le> weight b" using Cons.prems(1) by simp
  have split: "total_weight (b # bs) = weight b + total_weight bs" by (simp add: total_weight_def)
  have s: "sint (acc + Weight (Config b)) = sint acc + weight b"
    unfolding weight_def
    by (rule sint_add_in_range) (use Cons.prems nn wb split in \<open>simp_all add: weight_def\<close>)
  have "sint (totalWeight_loop (acc + Weight (Config b)) bs)
      = sint (acc + Weight (Config b)) + total_weight bs"
    by (rule Cons.IH) (use Cons.prems nn wb split s in simp_all)
  then show ?case by (simp add: s split)
qed

lemma weighted_walk_first:
  assumes "\<forall>b\<in>set bs. 0 \<le> weight b" "0 \<le> sint cur" "sint cur + total_weight bs < 2 ^ 63"
    and "sint cur \<le> sint r" "sint r < sint cur + total_weight bs"
  shows "\<exists>i<length bs. weighted_walk r cur bs = Some (bs ! i) \<and>
           sint r < sint cur + cumulative_weight bs (Suc i) \<and>
           (\<forall>j<i. sint cur + cumulative_weight bs (Suc j) \<le> sint r)"
  using assms
proof (induction bs arbitrary: cur)
  case Nil
  then show ?case by (simp add: total_weight_def)
next
  case (Cons b bs)
  have nn: "0 \<le> total_weight bs" using Cons.prems(1) by (simp add: total_weight_nonneg)
  have wb: "0 \<le> weight b" using Cons.prems(1) by simp
  have split: "total_weight (b # bs) = weight b + total_weight bs" by (simp add: total_weight_def)
  have s: "sint (cur + Weight (Config b)) = sint cur + weight b"
    unfolding weight_def
    by (rule sint_add_in_range) (use Cons.prems nn wb split in \<open>simp_all add: weight_def\<close>)
  have cum: "\<And>k. cumulative_weight (b # bs) (Suc k) = weight b + cumulative_weight bs k"
    by (simp add: cumulative_weight_def total_weight_def)
  show ?case
  proof (cases "sint r < sint cur + weight b")
    case True
    then have "weighted_walk r cur (b # bs) = Some ((b # bs) ! 0)" by (simp add: s Let_def)
    moreover have "sint r < sint cur + cumulative_weight (b # bs) (Suc 0)"
      using True by (simp add: cumulative_weight_def total_weight_def)
    ultimately show ?thesis by (intro exI [of _ 0]) simp
  next
    case False
    have "\<exists>i<length bs. weighted_walk r (cur + Weight (Config b)) bs = Some (bs ! i) \<and>
           sint r < sint (cur + Weight (Config b)) + cumulative_weight bs (Suc i) \<and>
           (\<forall>j<i. sint (cur + Weight (Config b)) + cumulative_weight bs (Suc j) \<le> sint r)"
      by (rule Cons.IH) (use Cons.prems nn wb split s False in simp_all)
    then obtain i where i: "i < length bs"
      "weighted_walk r (cur + Weight (Config b)) bs = Some (bs ! i)"
      "sint r < sint cur + weight b + cumulative_weight bs (Suc i)"
      "\<forall>j<i. sint cur + weight b + cumulative_weight bs (Suc j) \<le> sint r"
      unfolding s by blast
    have w: "weighted_walk r cur (b # bs) = Some ((b # bs) ! Suc i)"
      using False i(2) by (simp add: s Let_def)
    have lower: "\<forall>j<Suc i. sint cur + cumulative_weight (b # bs) (Suc j) \<le> sint r"
    proof (intro allI impI)
      fix j assume "j < Suc i"
      show "sint cur + cumulative_weight (b # bs) (Suc j) \<le> sint r"
      proof (cases j)
        case 0
        then show ?thesis using False by (simp add: cumulative_weight_def total_weight_def)
      next
        case (Suc j')
        with \<open>j < Suc i\<close> have "j' < i" by simp
        with i(4) have "sint cur + weight b + cumulative_weight bs (Suc j') \<le> sint r" by blast
        then show ?thesis unfolding Suc cum by simp
      qed
    qed
    have upper: "sint r < sint cur + cumulative_weight (b # bs) (Suc (Suc i))"
      using i(3) unfolding cum by simp
    from i(1) w upper lower show ?thesis
      by (intro exI [of _ "Suc i"]) simp
  qed
qed

lemma sint_of_nat_length:
  assumes "n < 2 ^ 63"
  shows "sint (word_of_nat n :: int64) = int n"
proof -
  have lt: "n < 2 ^ 64" using assms by (rule less_trans) simp
  have "sint (word_of_nat n :: int64) = signed_take_bit 63 (int (unat (word_of_nat n :: int64)))"
    by (simp add: sint_uint)
  also have "unat (word_of_nat n :: int64) = n" using lt by (simp add: unat_of_nat)
  also have "signed_take_bit 63 (int n) = int n"
  proof (rule signed_take_bit_int_eq_self)
    show "- (2 ^ 63) \<le> int n" by (rule order_trans [of _ 0]) simp_all
    have "int n < int (2 ^ 63)" using assms by (simp only: of_nat_less_iff)
    then show "int n < 2 ^ 63" by simp
  qed
  finally show ?thesis .
qed

text \<open>
  C4 (amended).  For a non-empty list whose weights are non-negative and whose total
  weight \<open>W\<close> fits Go's \<open>int\<close> (\<open>W < 2^63\<close>), with a generator that keeps the promise of
  \<open>rand.Intn\<close>: if \<open>W = 0\<close> the strategy returns the bucket at the index that
  \<open>rand.Intn(len(buckets))\<close> yields (each index for exactly one value of the draw, so a
  uniform draw is a uniform choice), never an error; if \<open>W > 0\<close> it draws
  \<open>r = rand.Intn(W)\<close> in \<open>[0, W)\<close> and returns the first bucket in list order whose
  cumulative weight strictly exceeds \<open>r\<close>.
\<close>

theorem Weighted_SelectBucket_spec:
  assumes ne: "buckets \<noteq> []" and len: "length buckets < 2 ^ 63"
    and nonneg: "\<forall>b\<in>set buckets. 0 \<le> weight b"
    and fit: "total_weight buckets < 2 ^ 63"
    and rng: "Intn_contract rng"
  shows "(total_weight buckets = 0 \<longrightarrow>
            (\<exists>i<length buckets. int i = sint (rng (word_of_nat (length buckets))) \<and>
               Weighted_SelectBucket rng buckets key sz = Inr (buckets ! i))) \<and>
         (0 < total_weight buckets \<longrightarrow>
            (\<exists>r i. r = sint (rng (word_of_int (total_weight buckets))) \<and>
               0 \<le> r \<and> r < total_weight buckets \<and> i < length buckets \<and>
               Weighted_SelectBucket rng buckets key sz = Inr (buckets ! i) \<and>
               r < cumulative_weight buckets (Suc i) \<and>
               (\<forall>j<i. cumulative_weight buckets (Suc j) \<le> r)))"
proof -
  let ?W = "total_weight buckets"
  let ?tw = "totalWeight_loop 0 buckets"
  have tw: "sint ?tw = ?W"
    using totalWeight_loop_sint [OF nonneg, of 0] fit by simp
  then have tw_word: "?tw = word_of_int ?W" by (metis of_int_sint scast_id) 
  have zero: "?tw = 0 \<longleftrightarrow> ?W = 0" using tw by (metis sint_0 of_int_sint scast_id)
  have n0: "length buckets \<noteq> 0" using ne by simp
  show ?thesis
  proof (intro conjI impI)
    assume W0: "?W = 0"
    let ?n = "word_of_nat (length buckets) :: int64"
    have sn: "sint ?n = int (length buckets)" by (rule sint_of_nat_length [OF len])
    then have pos: "0 < sint ?n" using ne by simp
    from rng pos have r: "0 \<le> sint (rng ?n)" "sint (rng ?n) < int (length buckets)"
      unfolding Intn_contract_def sn [symmetric] by blast+
    have "Weighted_SelectBucket rng buckets key sz = Inr (buckets ! nat (sint (rng ?n)))"
      using W0 zero n0 pos r
      by (simp add: Weighted_SelectBucket_def Let_def rand_Intn_def index_slice_def)
    moreover have "nat (sint (rng ?n)) < length buckets" using r by simp
    moreover have "int (nat (sint (rng ?n))) = sint (rng ?n)" using r by simp
    ultimately show "\<exists>i<length buckets. int i = sint (rng ?n) \<and>
               Weighted_SelectBucket rng buckets key sz = Inr (buckets ! i)"
      by blast
  next
    assume Wpos: "0 < ?W"
    let ?r = "rng ?tw"
    from rng Wpos tw have r: "0 \<le> sint ?r" "sint ?r < ?W"
      unfolding Intn_contract_def by (metis)+
    have "\<exists>i<length buckets. weighted_walk ?r 0 buckets = Some (buckets ! i) \<and>
           sint ?r < sint (0::int64) + cumulative_weight buckets (Suc i) \<and>
           (\<forall>j<i. sint (0::int64) + cumulative_weight buckets (Suc j) \<le> sint ?r)"
      by (rule weighted_walk_first [OF nonneg]) (use fit r in simp_all)
    then obtain i where i: "i < length buckets" "weighted_walk ?r 0 buckets = Some (buckets ! i)"
      "sint ?r < cumulative_weight buckets (Suc i)"
      "\<forall>j<i. cumulative_weight buckets (Suc j) \<le> sint ?r"
      by auto
    have "Weighted_SelectBucket rng buckets key sz = Inr (buckets ! i)"
      using Wpos zero n0 tw i(2)
      by (simp add: Weighted_SelectBucket_def Let_def rand_Intn_def)
    with i r show "\<exists>r i. r = sint (rng (word_of_int ?W)) \<and>
               0 \<le> r \<and> r < ?W \<and> i < length buckets \<and>
               Weighted_SelectBucket rng buckets key sz = Inr (buckets ! i) \<and>
               r < cumulative_weight buckets (Suc i) \<and>
               (\<forall>j<i. cumulative_weight buckets (Suc j) \<le> r)"
      unfolding tw_word [symmetric] by blast
  qed
qed

lemma example_rng_contract: "Intn_contract example_rng"
  by (simp add: Intn_contract_def example_rng_def)

text \<open>
  The theorem at the weights 1, 3, 6 with the draw 4 (cumulative weights 1, 4, 10: the
  third bucket), and at the weights 0, 0 with the draw 0.
\<close>

theorem Weighted_SelectBucket_spec_witness:
  "total_weight [example_bucket ''a'' 100 1 0, example_bucket ''b'' 100 3 0, example_bucket ''c'' 100 6 0] = 10 \<and>
   sint (example_rng 10) = 4 \<and>
   Weighted_SelectBucket example_rng
     [example_bucket ''a'' 100 1 0, example_bucket ''b'' 100 3 0, example_bucket ''c'' 100 6 0] [] 0
     = Inr (example_bucket ''c'' 100 6 0) \<and>
   total_weight [example_bucket ''a'' 100 0 0, example_bucket ''b'' 100 0 0] = 0 \<and>
   sint (example_rng 2) = 0 \<and>
   Weighted_SelectBucket example_rng [example_bucket ''a'' 100 0 0, example_bucket ''b'' 100 0 0] [] 0
     = Inr (example_bucket ''a'' 100 0 0)"
proof -
  let ?bs = "[example_bucket ''a'' 100 1 0, example_bucket ''b'' 100 3 0, example_bucket ''c'' 100 6 0]"
  let ?zs = "[example_bucket ''a'' 100 0 0, example_bucket ''b'' 100 0 0]"
  have w: "total_weight ?bs = 10" "total_weight ?zs = 0"
    by (simp_all add: total_weight_def weight_def example_bucket_def)
  have nn: "\<forall>b\<in>set ?bs. 0 \<le> weight b" "\<forall>b\<in>set ?zs. 0 \<le> weight b"
    by (simp_all add: weight_def example_bucket_def)
  have cum: "cumulative_weight ?bs (Suc 0) = 1" "cumulative_weight ?bs (Suc (Suc 0)) = 4"
    by (simp_all add: cumulative_weight_def total_weight_def weight_def example_bucket_def)
  have r: "sint (example_rng 10) = 4" "sint (example_rng 2) = 0"
    by (simp_all add: example_rng_def)
  have "\<exists>i<length ?bs. Weighted_SelectBucket example_rng ?bs [] 0 = Inr (?bs ! i) \<and>
           4 < cumulative_weight ?bs (Suc i) \<and> (\<forall>j<i. cumulative_weight ?bs (Suc j) \<le> 4)"
    using Weighted_SelectBucket_spec [OF _ _ nn(1) _ example_rng_contract, of "[]" 0]
    by (simp add: w r)
  then obtain i where i: "i < length ?bs"
      "Weighted_SelectBucket example_rng ?bs [] 0 = Inr (?bs ! i)"
      "\<forall>j<i. cumulative_weight ?bs (Suc j) \<le> 4"
      "4 < cumulative_weight ?bs (Suc i)"
    by auto
  have "i = 2"
  proof -
    from i(1) have "i = 0 \<or> i = 1 \<or> i = 2" by auto
    with i(4) cum show ?thesis by auto
  qed
  with i(2) have a: "Weighted_SelectBucket example_rng ?bs [] 0 = Inr (example_bucket ''c'' 100 6 0)"
    by simp
  have "\<exists>k<length ?zs. int k = 0 \<and> Weighted_SelectBucket example_rng ?zs [] 0 = Inr (?zs ! k)"
    using Weighted_SelectBucket_spec [OF _ _ nn(2) _ example_rng_contract, of "[]" 0]
    by (simp add: w r)
  then obtain k where k: "k < length ?zs" "int k = 0"
      "Weighted_SelectBucket example_rng ?zs [] 0 = Inr (?zs ! k)"
    by auto
  from k(2) have "k = 0" by simp
  with k(3) have b: "Weighted_SelectBucket example_rng ?zs [] 0 = Inr (example_bucket ''a'' 100 0 0)"
    by simp
  from w r a b show ?thesis by simp
qed

text \<open>
  C4 as stated fails when the sum of the weights overflows: two buckets of weight
  \<open>2^62\<close> have non-negative weights and \<open>W = 2^63 > 0\<close>, but \<open>totalWeight\<close> wraps to
  \<open>-2^63\<close> and \<open>rand.Intn\<close> panics.
\<close>

theorem Weighted_SelectBucket_overflow_counterexample:
  "weight (example_bucket ''a'' 100 0x4000000000000000 0) = 2 ^ 62 \<and>
   weight (example_bucket ''b'' 100 0x4000000000000000 0) = 2 ^ 62 \<and>
   Intn_contract example_rng \<and>
   Weighted_SelectBucket example_rng
     [example_bucket ''a'' 100 0x4000000000000000 0, example_bucket ''b'' 100 0x4000000000000000 0] [] 0
     = Inl (Panic ''invalid argument to Intn'')"
  by (simp add: example_rng_contract Weighted_SelectBucket_def rand_Intn_def example_bucket_def weight_def Let_def)

section \<open>Properties of the consistent-hash strategy\<close>

lemma find_snoc:
  "find P (xs @ [x]) = (case find P xs of Some y \<Rightarrow> Some y | None \<Rightarrow> if P x then Some x else None)"
  by (induction xs) simp_all

lemma find_rev_Cons:
  "find P (rev (x # xs)) = (case find P (rev xs) of Some y \<Rightarrow> Some y | None \<Rightarrow> if P x then Some x else None)"
  by (simp add: find_snoc)

lemma add_replicas_nodes:
  "snd (fold (add_virtual_node b) is (r, ns))
     = ns @ map (\<lambda>i. hash (virtualKey (Name (Config b)) i)) is"
  by (induction "is" arbitrary: r ns) (simp_all add: add_virtual_node_def Let_def)

lemma add_replicas_ring:
  "fst (fold (add_virtual_node b) is (r, ns)) h
     = (if h \<in> set (map (\<lambda>i. hash (virtualKey (Name (Config b)) i)) is) then Some b else r h)"
  by (induction "is" arbitrary: r ns) (auto simp: add_virtual_node_def Let_def)

lemma add_buckets_nodes:
  "snd (add_buckets reps buckets (r, ns)) = ns @ concat (map (points reps) buckets)"
proof (induction buckets arbitrary: r ns)
  case Nil
  then show ?case by (simp add: add_buckets_def)
next
  case (Cons b bs)
  obtain r' ns' where f: "fold (add_virtual_node b) [0..<reps] (r, ns) = (r', ns')"
    by (cases "fold (add_virtual_node b) [0..<reps] (r, ns)")
  from add_replicas_nodes [of b "[0..<reps]" r ns] f
  have ns': "ns' = ns @ points reps b" by (simp add: points_def)
  have "add_buckets reps (b # bs) (r, ns) = add_buckets reps bs (r', ns')"
    by (simp add: add_buckets_def f)
  then show ?case using Cons.IH [of r' ns'] by (simp add: ns')
qed

lemma add_buckets_ring:
  "fst (add_buckets reps buckets (r, ns)) h
     = (case owner reps buckets h of Some b \<Rightarrow> Some b | None \<Rightarrow> r h)"
proof (induction buckets arbitrary: r ns)
  case Nil
  then show ?case by (simp add: add_buckets_def owner_def)
next
  case (Cons b bs)
  obtain r' ns' where f: "fold (add_virtual_node b) [0..<reps] (r, ns) = (r', ns')"
    by (cases "fold (add_virtual_node b) [0..<reps] (r, ns)")
  from add_replicas_ring [of b "[0..<reps]" r ns h] f
  have r': "r' h = (if h \<in> set (points reps b) then Some b else r h)" by (simp add: points_def)
  have step: "add_buckets reps (b # bs) (r, ns) = add_buckets reps bs (r', ns')"
    by (simp add: add_buckets_def f)
  have own: "owner reps (b # bs) h
      = (case owner reps bs h of Some b' \<Rightarrow> Some b'
         | None \<Rightarrow> if h \<in> set (points reps b) then Some b else None)"
    unfolding owner_def by (rule find_rev_Cons)
  show ?case unfolding step Cons.IH [of r' ns'] own r'
    by (simp split: option.splits)
qed

lemma updateRing_ring: "ring (updateRing srt s buckets) = owner (replicas s) buckets"
proof
  fix h
  obtain r ns where a: "add_buckets (replicas s) buckets (Map.empty, []) = (r, ns)"
    by (cases "add_buckets (replicas s) buckets (Map.empty, [])")
  from add_buckets_ring [of "replicas s" buckets Map.empty "[]" h] a
  have "r h = owner (replicas s) buckets h" by (simp split: option.splits)
  then show "ring (updateRing srt s buckets) h = owner (replicas s) buckets h"
    by (simp add: updateRing_def a)
qed

lemma updateRing_nodes:
  "nodes (updateRing srt s buckets)
     = srt (\<lambda>x y. x < y) (concat (map (points (replicas s)) buckets))"
proof -
  obtain r ns where a: "add_buckets (replicas s) buckets (Map.empty, []) = (r, ns)"
    by (cases "add_buckets (replicas s) buckets (Map.empty, [])")
  from add_buckets_nodes [of "replicas s" buckets Map.empty "[]"] a
  have "ns = concat (map (points (replicas s)) buckets)" by simp
  then show ?thesis by (simp add: updateRing_def a)
qed

lemma updateRing_replicas: "replicas (updateRing srt s buckets) = replicas s"
  by (simp add: updateRing_def split: prod.splits)

lemma owner_Some:
  "owner reps buckets h = Some b \<Longrightarrow> b \<in> set buckets \<and> h \<in> set (points reps b)"
  unfolding owner_def by (metis find_Some_iff nth_mem set_rev)

lemma owner_None:
  "owner reps buckets h = None \<longleftrightarrow> h \<notin> set (concat (map (points reps) buckets))"
  unfolding owner_def by (auto simp: find_None_iff)

lemma owner_last:
  assumes "k < length buckets" "h \<in> set (points reps (buckets ! k))"
    and "\<forall>j. k < j \<and> j < length buckets \<longrightarrow> h \<notin> set (points reps (buckets ! j))"
  shows "owner reps buckets h = Some (buckets ! k)"
  using assms
proof (induction buckets arbitrary: k rule: rev_induct)
  case Nil
  then show ?case by simp
next
  case (snoc b bs)
  show ?case
  proof (cases "k = length bs")
    case True
    then show ?thesis using snoc.prems(2) by (simp add: owner_def)
  next
    case False
    with snoc.prems(1) have k: "k < length bs" by simp
    have "h \<notin> set (points reps ((bs @ [b]) ! length bs))"
      using snoc.prems(3) k by (auto dest: spec [of _ "length bs"])
    then have nb: "h \<notin> set (points reps b)" by simp
    have "owner reps bs h = Some (bs ! k)"
    proof (rule snoc.IH [OF k])
      show "h \<in> set (points reps (bs ! k))" using snoc.prems(2) k by (simp add: nth_append)
      show "\<forall>j. k < j \<and> j < length bs \<longrightarrow> h \<notin> set (points reps (bs ! j))"
      proof (intro allI impI)
        fix j assume j: "k < j \<and> j < length bs"
        then have "h \<notin> set (points reps ((bs @ [b]) ! j))" using snoc.prems(3) by simp
        then show "h \<notin> set (points reps (bs ! j))" using j by (simp add: nth_append)
      qed
    qed
    then show ?thesis using nb k by (simp add: owner_def nth_append)
  qed
qed

lemma Search_loop_bounds: "i \<le> j \<Longrightarrow> i \<le> Search_loop f i j \<and> Search_loop f i j \<le> j"
proof (induction f i j rule: Search_loop.induct)
  case (1 f i j)
  show ?case
  proof (cases "i < j")
    case False
    then show ?thesis using "1.prems" by (subst (1 2) Search_loop.simps) simp
  next
    case True
    let ?h = "(i + j) div 2"
    have h: "i \<le> ?h" "?h < j" using True by auto
    show ?thesis
    proof (cases "f ?h")
      case True
      with "1.IH"(2) [OF \<open>i < j\<close> refl] h \<open>i < j\<close> show ?thesis
        by (subst (1 2) Search_loop.simps) (simp add: Let_def)
    next
      case False
      with "1.IH"(1) [OF \<open>i < j\<close> refl] h \<open>i < j\<close> show ?thesis
        by (subst (1 2) Search_loop.simps) (simp add: Let_def)
    qed
  qed
qed

lemma sort_Search_le: "sort_Search n f \<le> n"
  using Search_loop_bounds [of 0 n f] by (simp add: sort_Search_def)

section \<open>A sort that keeps the promise\<close>

lemma mset_insert_sorted: "mset (insert_sorted less_fn x xs) = add_mset x (mset xs)"
  by (induction xs) simp_all

lemma mset_example_sort: "mset (example_sort less_fn xs) = mset xs"
  by (induction xs) (simp_all add: example_sort_def mset_insert_sorted)

lemma sorted_insert_sorted:
  fixes f :: "'a \<Rightarrow> 'b::linorder"
  assumes "\<And>x y. less_fn x y \<longleftrightarrow> f x < f y"
  shows "sorted (map f xs) \<Longrightarrow> sorted (map f (insert_sorted less_fn x xs))"
proof (induction xs)
  case Nil
  then show ?case by simp
next
  case (Cons y ys)
  have st: "set (insert_sorted less_fn x ys) = insert x (set ys)"
    by (metis mset_insert_sorted set_mset_add_mset_insert set_mset_mset)
  show ?case
  proof (cases "less_fn x y")
    case True
    then have "f x < f y" by (simp add: assms)
    then show ?thesis using True Cons.prems by auto
  next
    case False
    then have "f y \<le> f x" by (simp add: assms not_less)
    moreover have "sorted (map f (insert_sorted less_fn x ys))" using Cons by simp
    ultimately show ?thesis using False Cons.prems by (simp add: st)
  qed
qed

lemma example_sort_contract:
  fixes f :: "'a \<Rightarrow> 'b::linorder"
  assumes "\<And>x y. less_fn x y \<longleftrightarrow> f x < f y"
  shows "sort_Slice_contract example_sort less_fn"
proof -
  have s: "sorted (map f (example_sort less_fn xs))" for xs
    by (induction xs) (simp_all add: example_sort_def sorted_insert_sorted [OF assms])
  have "sorted_wrt (\<lambda>x y. \<not> less_fn y x) (example_sort less_fn xs)" for xs
    using s [of xs] by (simp add: sorted_wrt_map assms not_less)
  then show ?thesis by (simp add: sort_Slice_contract_def mset_example_sort)
qed

lemma example_sort_nodes_contract: "sort_Slice_contract example_sort (\<lambda>x y. (x::uint32) < y)"
  by (rule example_sort_contract [where f = "\<lambda>x. x"]) simp

lemma example_sort_buckets_contract: "sort_Slice_contract example_sort more_space"
  by (rule example_sort_contract [where f = "\<lambda>b. - sint (GetAvailableSpace b)"])
     (auto simp: more_space_def)

lemma contract_mset: "sort_Slice_contract srt less_fn \<Longrightarrow> mset (srt less_fn xs) = mset xs"
  by (simp add: sort_Slice_contract_def)

lemma contract_set: "sort_Slice_contract srt less_fn \<Longrightarrow> set (srt less_fn xs) = set xs"
  by (metis contract_mset set_mset_mset)

lemma contract_length: "sort_Slice_contract srt less_fn \<Longrightarrow> length (srt less_fn xs) = length xs"
  by (metis contract_mset size_mset)

lemma contract_sorted:
  "sort_Slice_contract srt less_fn \<Longrightarrow> sorted_wrt (\<lambda>x y. \<not> less_fn y x) (srt less_fn xs)"
  by (simp add: sort_Slice_contract_def)

section \<open>The ring after a rebuild\<close>

lemma length_points: "length (points reps b) = reps"
  by (simp add: points_def)

lemma length_concat_points: "length (concat (map (points reps) buckets)) = reps * length buckets"
  by (induction buckets) (simp_all add: length_points)

text \<open>
  C6 (amended).  After \<open>updateRing\<close> on a list of \<open>n\<close> buckets, with a \<open>sort.Slice\<close>
  that keeps its promise: the node sequence is sorted non-decreasing and holds
  \<open>replicas \<times> n\<close> points, \<open>replicas\<close> being the constructor's 100, which \<open>updateRing\<close> leaves
  alone; the nodes are, as a multiset, the points of the buckets, each bucket contributing
  exactly \<open>replicas\<close> of them, the point of index \<open>i\<close> being the big-endian first four bytes
  of the MD5 digest of \<open>"<bucket_name>-<i>"\<close>; the ring maps every node to a bucket of the
  list that has this point, and it maps a point of a bucket back to that bucket provided
  no later bucket of the list has the same point.
\<close>

theorem updateRing_invariant:
  assumes "sort_Slice_contract srt (\<lambda>x y. (x::uint32) < y)"
  shows "sorted (nodes (updateRing srt s buckets)) \<and>
         length (nodes (updateRing srt s buckets)) = replicas s * length buckets \<and>
         replicas NewConsistentHashStrategy = 100 \<and>
         replicas (updateRing srt s buckets) = replicas s \<and>
         mset (nodes (updateRing srt s buckets))
           = mset (concat (map (points (replicas s)) buckets)) \<and>
         (\<forall>b. length (points (replicas s) b) = replicas s \<and>
              (\<forall>i<replicas s. points (replicas s) b ! i
                 = BigEndian_Uint32 (take 4 (md5_Sum (bytes_of (Name (Config b) @ ''-'' @ itoa i)))))) \<and>
         (\<forall>h\<in>set (nodes (updateRing srt s buckets)).
            \<exists>b\<in>set buckets. ring (updateRing srt s buckets) h = Some b \<and>
                            h \<in> set (points (replicas s) b)) \<and>
         (\<forall>k<length buckets. \<forall>h\<in>set (points (replicas s) (buckets ! k)).
            (\<forall>j. k < j \<and> j < length buckets \<longrightarrow> h \<notin> set (points (replicas s) (buckets ! j)))
              \<longrightarrow> ring (updateRing srt s buckets) h = Some (buckets ! k))"
proof -
  let ?s' = "updateRing srt s buckets"
  let ?ns = "concat (map (points (replicas s)) buckets)"
  have n: "nodes ?s' = srt (\<lambda>x y. x < y) ?ns" by (rule updateRing_nodes)
  have "sorted_wrt (\<lambda>x y. \<not> y < x) (nodes ?s')" unfolding n by (rule contract_sorted [OF assms])
  then have 1: "sorted (nodes ?s')" by (simp add: not_less)
  have 2: "length (nodes ?s') = replicas s * length buckets"
    unfolding n by (simp add: contract_length [OF assms] length_concat_points)
  have 3: "mset (nodes ?s') = mset ?ns" unfolding n by (rule contract_mset [OF assms])
  have 4: "\<forall>b. length (points (replicas s) b) = replicas s \<and>
              (\<forall>i<replicas s. points (replicas s) b ! i
                 = BigEndian_Uint32 (take 4 (md5_Sum (bytes_of (Name (Config b) @ ''-'' @ itoa i)))))"
    by (simp add: points_def hash_def virtualKey_def Let_def)
  have 5: "\<forall>h\<in>set (nodes ?s'). \<exists>b\<in>set buckets. ring ?s' h = Some b \<and> h \<in> set (points (replicas s) b)"
  proof
    fix h assume "h \<in> set (nodes ?s')"
    then have "h \<in> set ?ns" unfolding n by (simp add: contract_set [OF assms])
    then have "owner (replicas s) buckets h \<noteq> None" by (simp add: owner_None)
    then obtain b where "owner (replicas s) buckets h = Some b" by blast
    with owner_Some [OF this] show "\<exists>b\<in>set buckets. ring ?s' h = Some b \<and> h \<in> set (points (replicas s) b)"
      by (auto simp: updateRing_ring)
  qed
  have 6: "\<forall>k<length buckets. \<forall>h\<in>set (points (replicas s) (buckets ! k)).
            (\<forall>j. k < j \<and> j < length buckets \<longrightarrow> h \<notin> set (points (replicas s) (buckets ! j)))
              \<longrightarrow> ring ?s' h = Some (buckets ! k)"
    by (auto simp: updateRing_ring intro!: owner_last)
  from 1 2 3 4 5 6 show ?thesis
    by (simp add: NewConsistentHashStrategy_def updateRing_replicas)
qed


lemma ConsistentHash_SelectBucket_replicas:
  "replicas (snd (ConsistentHash_SelectBucket srt s buckets key sz)) = replicas s"
  by (simp add: ConsistentHash_SelectBucket_def Let_def updateRing_replicas split: option.splits)









lemma ConsistentHash_SelectBucket_total:
  assumes c: "sort_Slice_contract srt (\<lambda>x y. (x::uint32) < y)"
    and ne: "buckets \<noteq> []" and reps: "0 < replicas s"
  shows "\<exists>b. fst (ConsistentHash_SelectBucket srt s buckets key sz) = Inr (Selected b)"
proof -
  let ?s' = "updateRing srt s buckets"
  let ?ns = "concat (map (points (replicas s)) buckets)"
  let ?idx = "sort_Search (length (nodes ?s')) (\<lambda>i. nodes ?s' ! i \<ge> hash key)"
  let ?idx' = "if ?idx = length (nodes ?s') then 0 else ?idx"
  have n: "nodes ?s' = srt (\<lambda>x y. x < y) ?ns" by (rule updateRing_nodes)
  have len: "0 < length (nodes ?s')"
    unfolding n using ne reps by (simp add: contract_length [OF c] length_concat_points)
  have "?idx \<le> length (nodes ?s')" by (rule sort_Search_le)
  with len have i: "?idx' < length (nodes ?s')" by auto
  then have "nodes ?s' ! ?idx' \<in> set ?ns"
    using nth_mem [OF i] unfolding n by (simp only: contract_set [OF c])
  then have "owner (replicas s) buckets (nodes ?s' ! ?idx') \<noteq> None" by (simp only: owner_None not_not)
  then obtain b where "ring ?s' (nodes ?s' ! ?idx') = Some b" by (auto simp: updateRing_ring)
  with i ne show ?thesis
    by (simp add: ConsistentHash_SelectBucket_def Let_def)
qed

section \<open>Properties of the least-space strategy\<close>

lemma sorted_wrt_hd:
  "sorted_wrt P ys \<Longrightarrow> y \<in> set ys \<Longrightarrow> ys \<noteq> [] \<Longrightarrow> y = hd ys \<or> P (hd ys) y"
  by (cases ys) auto

lemma LeastSpace_SelectBucket_hd:
  assumes c: "sort_Slice_contract srt more_space" and ne: "buckets \<noteq> []"
  shows "srt more_space buckets \<noteq> [] \<and>
         LeastSpace_SelectBucket srt buckets key sz = Inr (hd (srt more_space buckets))"
proof -
  let ?ys = "srt more_space buckets"
  have len: "length ?ys = length buckets" by (rule contract_length [OF c])
  with ne have ys: "?ys \<noteq> []" by auto
  then show ?thesis
    using ne by (simp add: LeastSpace_SelectBucket_def index_slice_def Let_def hd_conv_nth)
qed

text \<open>
  C7 (amended).  For every non-empty list, with a \<open>sort.Slice\<close> that keeps its promise,
  the least-space strategy returns a bucket of the list whose available space is maximal
  in the list.  Which of several buckets of maximal space it returns is up to
  \<open>sort.Slice\<close>, which is not stable.
\<close>

theorem LeastSpace_SelectBucket_max:
  assumes c: "sort_Slice_contract srt more_space" and ne: "buckets \<noteq> []"
  shows "\<exists>b. LeastSpace_SelectBucket srt buckets key sz = Inr b \<and> b \<in> set buckets \<and>
             (\<forall>b'\<in>set buckets. sint (GetAvailableSpace b') \<le> sint (GetAvailableSpace b))"
proof -
  let ?ys = "srt more_space buckets"
  from LeastSpace_SelectBucket_hd [OF c ne, of key sz]
  have ys: "?ys \<noteq> []" and r: "LeastSpace_SelectBucket srt buckets key sz = Inr (hd ?ys)"
    by simp_all
  have m: "hd ?ys \<in> set buckets" using ys contract_set [OF c, of buckets] by (metis hd_in_set)
  have "\<forall>b'\<in>set buckets. sint (GetAvailableSpace b') \<le> sint (GetAvailableSpace (hd ?ys))"
  proof
    fix b' assume "b' \<in> set buckets"
    then have "b' \<in> set ?ys" by (simp add: contract_set [OF c])
    from sorted_wrt_hd [OF contract_sorted [OF c] this ys]
    show "sint (GetAvailableSpace b') \<le> sint (GetAvailableSpace (hd ?ys))"
      by (auto simp: more_space_def)
  qed
  with r m show ?thesis by blast
qed

section \<open>Properties of the balancer\<close>








lemma NewBalancer_constructed: "NewBalancer m name = Inr b \<Longrightarrow> constructed (strategy b)"
  by (auto simp: NewBalancer_def constructed_def NewConsistentHashStrategy_def split: if_splits)

lemma ConsistentHash_SelectBucket_replicas':
  "ConsistentHash_SelectBucket srt s buckets key sz = (r, s') \<Longrightarrow> replicas s' = replicas s"
  using ConsistentHash_SelectBucket_replicas [of srt s buckets key sz] by simp

lemma Strategy_SelectBucket_constructed:
  "constructed st \<Longrightarrow> constructed (snd (Strategy_SelectBucket lib st buckets key sz))"
  by (cases st)
     (auto simp: constructed_def Strategy_SelectBucket_def split: prod.splits
           dest: ConsistentHash_SelectBucket_replicas')

lemma Balancer_SelectBucket_constructed:
  "constructed (strategy b) \<Longrightarrow> constructed (strategy (snd (Balancer_SelectBucket lib b key sz)))"
  using Strategy_SelectBucket_constructed
    [of "strategy b" lib "filter (has_space sz) (GetAvailableBuckets (manager b))" key sz]
  by (auto simp: Balancer_SelectBucket_def Let_def split: prod.splits sum.splits)

lemma RoundRobin_SelectBucket_total:
  assumes "buckets \<noteq> []" "length buckets < 2 ^ 64"
  shows "\<exists>x. fst (RoundRobin_SelectBucket s buckets key sz) = Inr x"
  using assms rr_index_less [of "length buckets" "counter s + 1"]
  by (simp add: RoundRobin_SelectBucket_def Let_def)

lemma sint_of_nat_minus_1:
  assumes "0 < n" "n < 2 ^ 63"
  shows "sint (word_of_nat n - 1 :: int64) = int n - 1"
proof -
  have "word_of_nat n - 1 = (word_of_nat (n - 1) :: int64)" using assms(1) by (simp add: of_nat_diff)
  moreover have "n - 1 < 2 ^ 63" using assms(2) by simp
  ultimately show ?thesis using sint_of_nat_length [of "n - 1"] assms(1) by (simp add: of_nat_diff)
qed

lemma Weighted_SelectBucket_total:
  assumes rng: "Intn_contract rng" and ne: "buckets \<noteq> []" and len: "length buckets < 2 ^ 63"
  shows "if sint (totalWeight_loop 0 buckets) < 0
         then Weighted_SelectBucket rng buckets key sz = Inl (Panic ''invalid argument to Intn'')
         else \<exists>x. Weighted_SelectBucket rng buckets key sz = Inr x"
proof -
  let ?tw = "totalWeight_loop 0 buckets"
  let ?n = "word_of_nat (length buckets) :: int64"
  have sn: "sint ?n = int (length buckets)" by (rule sint_of_nat_length [OF len])
  have n0: "length buckets \<noteq> 0" using ne by simp
  have tw0: "?tw = 0 \<longleftrightarrow> sint ?tw = 0" by (metis sint_0 of_int_sint scast_id)
  consider (neg) "sint ?tw < 0" | (zero) "sint ?tw = 0" | (pos) "0 < sint ?tw" by linarith
  then show ?thesis
  proof cases
    case neg
    then have "?tw \<noteq> 0" using tw0 by auto
    with neg n0 show ?thesis by (simp add: Weighted_SelectBucket_def Let_def rand_Intn_def)
  next
    case zero
    then have z: "?tw = 0" using tw0 by simp
    have pos: "0 < sint ?n" using sn ne by simp
    from rng pos have r: "0 \<le> sint (rng ?n)" "sint (rng ?n) < int (length buckets)"
      unfolding Intn_contract_def sn [symmetric] by blast+
    have "Weighted_SelectBucket rng buckets key sz = Inr (buckets ! nat (sint (rng ?n)))"
      using z n0 pos r by (simp add: Weighted_SelectBucket_def Let_def rand_Intn_def index_slice_def)
    with zero show ?thesis by simp
  next
    case pos
    then have nz: "?tw \<noteq> 0" using tw0 by auto
    have "nat (int (length buckets) - 1) = length buckets - 1" by simp
    then have last: "index_slice buckets (?n - 1) = Inr (buckets ! (length buckets - 1))"
      using sint_of_nat_minus_1 [OF _ len] ne
      by (simp add: index_slice_def)
    have "\<exists>x. Weighted_SelectBucket rng buckets key sz = Inr x"
      using nz n0 pos last
      by (cases "weighted_walk (rng ?tw) 0 buckets")
         (simp_all add: Weighted_SelectBucket_def Let_def rand_Intn_def)
    with pos show ?thesis by simp
  qed
qed

lemma Strategy_SelectBucket_total:
  assumes cb: "sort_Slice_contract (sort_Slice_buckets lib) more_space"
    and cn: "sort_Slice_contract (sort_Slice_nodes lib) (\<lambda>x y. x < y)"
    and rng: "Intn_contract (Intn lib)"
    and ne: "buckets \<noteq> []" and len: "length buckets < 2 ^ 63"
    and ok: "constructed st"
  shows "if st = Weighted \<and> sint (totalWeight_loop 0 buckets) < 0
         then fst (Strategy_SelectBucket lib st buckets key sz) = Inl (Panic ''invalid argument to Intn'')
         else \<exists>x. fst (Strategy_SelectBucket lib st buckets key sz) = Inr (Selected x)"
proof (cases st)
  case (RoundRobin s)
  have "length buckets < 2 ^ 64" using len by (rule less_trans) simp
  from RoundRobin_SelectBucket_total [OF ne this, of s key sz]
  obtain x where "fst (RoundRobin_SelectBucket s buckets key sz) = Inr x" by blast
  then show ?thesis using RoundRobin
    by (auto simp: Strategy_SelectBucket_def returned_def split: prod.splits)
next
  case LeastSpace
  from LeastSpace_SelectBucket_hd [OF cb ne, of key sz]
  obtain x where "LeastSpace_SelectBucket (sort_Slice_buckets lib) buckets key sz = Inr x" by blast
  then show ?thesis using LeastSpace by (simp add: Strategy_SelectBucket_def returned_def)
next
  case Weighted
  show ?thesis
    using Weighted_SelectBucket_total [OF rng ne len, of key sz] Weighted
    by (auto simp: Strategy_SelectBucket_def returned_def split: if_splits)
next
  case (ConsistentHash s)
  with ok have "0 < replicas s" by (simp add: constructed_def)
  from ConsistentHash_SelectBucket_total [OF cn ne this, of key sz]
  obtain x where "fst (ConsistentHash_SelectBucket (sort_Slice_nodes lib) s buckets key sz) = Inr (Selected x)"
    by blast
  then show ?thesis using ConsistentHash
    by (auto simp: Strategy_SelectBucket_def split: prod.splits)
qed

text \<open>
  C2 (amended).  \<open>Balancer.SelectBucket(key, size)\<close> returns the error "no available
  buckets" when the registry's available set is empty, and the error "no bucket has enough
  space for <size> bytes" when that set is non-empty but no bucket of it has \<open>size\<close> bytes
  free.  When some bucket is eligible it returns a bucket, except under the weighted
  strategy when the 64-bit sum of the eligible buckets' weights is negative: then
  \<open>rand.Intn\<close> panics.  (The library routines keep their promises, and the strategy is
  one \<open>NewBalancer\<close> makes.)
\<close>

theorem Balancer_SelectBucket_failures:
  assumes cb: "sort_Slice_contract (sort_Slice_buckets lib) more_space"
    and cn: "sort_Slice_contract (sort_Slice_nodes lib) (\<lambda>x y. x < y)"
    and rng: "Intn_contract (Intn lib)"
    and len: "length (manager b) < 2 ^ 63"
    and ok: "constructed (strategy b)"
  shows "(GetAvailableBuckets (manager b) = [] \<longrightarrow>
            fst (Balancer_SelectBucket lib b key sz) = Inl ErrNoAvailableBuckets) \<and>
         (GetAvailableBuckets (manager b) \<noteq> [] \<and>
          filter (has_space sz) (GetAvailableBuckets (manager b)) = [] \<longrightarrow>
            fst (Balancer_SelectBucket lib b key sz) = Inl (ErrNotEnoughSpace sz)) \<and>
         (filter (has_space sz) (GetAvailableBuckets (manager b)) \<noteq> [] \<and>
          strategy b = Weighted \<and>
          sint (totalWeight_loop 0 (filter (has_space sz) (GetAvailableBuckets (manager b)))) < 0 \<longrightarrow>
            fst (Balancer_SelectBucket lib b key sz) = Inl (Panic ''invalid argument to Intn'')) \<and>
         (filter (has_space sz) (GetAvailableBuckets (manager b)) \<noteq> [] \<and>
          \<not> (strategy b = Weighted \<and>
             sint (totalWeight_loop 0 (filter (has_space sz) (GetAvailableBuckets (manager b)))) < 0) \<longrightarrow>
            (\<exists>x. fst (Balancer_SelectBucket lib b key sz) = Inr (Selected x)))"
proof -
  let ?av = "GetAvailableBuckets (manager b)"
  let ?el = "filter (has_space sz) ?av"
  have "length ?el \<le> length (manager b)"
    unfolding GetAvailableBuckets_def by (rule order_trans [OF length_filter_le length_filter_le])
  with len have l: "length ?el < 2 ^ 63" by simp
  have 1: "?av = [] \<longrightarrow> fst (Balancer_SelectBucket lib b key sz) = Inl ErrNoAvailableBuckets"
    by (simp add: Balancer_SelectBucket_def)
  have 2: "?av \<noteq> [] \<and> ?el = [] \<longrightarrow> fst (Balancer_SelectBucket lib b key sz) = Inl (ErrNotEnoughSpace sz)"
    by (simp add: Balancer_SelectBucket_def Let_def)
  have fst_eq: "?el \<noteq> [] \<Longrightarrow>
      fst (Balancer_SelectBucket lib b key sz) = fst (Strategy_SelectBucket lib (strategy b) ?el key sz)"
    by (auto simp: Balancer_SelectBucket_def Let_def split: prod.splits sum.splits)
  have 3: "?el \<noteq> [] \<and> strategy b = Weighted \<and> sint (totalWeight_loop 0 ?el) < 0 \<longrightarrow>
      fst (Balancer_SelectBucket lib b key sz) = Inl (Panic ''invalid argument to Intn'')"
    using Strategy_SelectBucket_total [OF cb cn rng _ l ok, of key sz] fst_eq by auto
  have 4: "?el \<noteq> [] \<and> \<not> (strategy b = Weighted \<and> sint (totalWeight_loop 0 ?el) < 0) \<longrightarrow>
      (\<exists>x. fst (Balancer_SelectBucket lib b key sz) = Inr (Selected x))"
    using Strategy_SelectBucket_total [OF cb cn rng _ l ok, of key sz] fst_eq by auto
  from 1 2 3 4 show ?thesis by blast
qed

section \<open>Concrete instances\<close>



text \<open>
  C2 (amended) at an empty registry, and at the capacity scenario with the sizes 60 and
  20.
\<close>

theorem Balancer_SelectBucket_failures_witness:
  "fst (Balancer_SelectBucket example_lib \<lparr>manager = [], strategy = LeastSpace\<rparr> ''x'' 20)
     = Inl ErrNoAvailableBuckets \<and>
   fst (Balancer_SelectBucket example_lib \<lparr>manager = [bucket_A, bucket_B], strategy = LeastSpace\<rparr> ''x'' 60)
     = Inl (ErrNotEnoughSpace 60) \<and>
   (\<exists>x. fst (Balancer_SelectBucket example_lib \<lparr>manager = [bucket_A, bucket_B], strategy = LeastSpace\<rparr> ''x'' 20)
     = Inr (Selected x))"
proof -
  have c: "sort_Slice_contract (sort_Slice_buckets example_lib) more_space"
    "sort_Slice_contract (sort_Slice_nodes example_lib) (\<lambda>x y. x < y)"
    "Intn_contract (Intn example_lib)"
    by (simp_all add: example_lib_def example_sort_buckets_contract example_sort_nodes_contract
          example_rng_contract)
  have e: "GetAvailableBuckets [] = []"
    "GetAvailableBuckets [bucket_A, bucket_B] = [bucket_A, bucket_B]"
    "\<not> has_space 60 bucket_A" "\<not> has_space 60 bucket_B"
    "\<not> has_space 20 bucket_A" "has_space 20 bucket_B"
    by (simp_all add: GetAvailableBuckets_def has_space_def GetAvailableSpace_def
          bucket_A_def bucket_B_def example_bucket_def)
  show ?thesis
    using Balancer_SelectBucket_failures [OF c, of "\<lparr>manager = [], strategy = LeastSpace\<rparr>" "''x''" 20]
      Balancer_SelectBucket_failures [OF c, of "\<lparr>manager = [bucket_A, bucket_B], strategy = LeastSpace\<rparr>" "''x''" 60]
      Balancer_SelectBucket_failures [OF c, of "\<lparr>manager = [bucket_A, bucket_B], strategy = LeastSpace\<rparr>" "''x''" 20]
    by (simp add: e constructed_def)
qed

text \<open>
  C2 as stated fails: two available buckets of weight \<open>2^62\<close> are both eligible for size
  0, and the balancer \<open>NewBalancer\<close> makes for "weighted" neither returns a bucket nor one
  of the two errors: it panics in \<open>rand.Intn\<close>.
\<close>

theorem Balancer_SelectBucket_panic_counterexample:
  "filter (has_space 0) (GetAvailableBuckets
      [example_bucket ''a'' 100 0x4000000000000000 0, example_bucket ''b'' 100 0x4000000000000000 0])
     = [example_bucket ''a'' 100 0x4000000000000000 0, example_bucket ''b'' 100 0x4000000000000000 0] \<and>
   (case NewBalancer
           [example_bucket ''a'' 100 0x4000000000000000 0, example_bucket ''b'' 100 0x4000000000000000 0]
           ''weighted'' of
      Inl e \<Rightarrow> False
    | Inr b \<Rightarrow> fst (Balancer_SelectBucket example_lib b ''x'' 0) = Inl (Panic ''invalid argument to Intn''))"
  by (simp add: NewBalancer_def Balancer_SelectBucket_def GetAvailableBuckets_def has_space_def
        GetAvailableSpace_def example_bucket_def Strategy_SelectBucket_def returned_def
        Weighted_SelectBucket_def rand_Intn_def example_lib_def Let_def)


text \<open>C6 (amended) at two buckets.\<close>

theorem updateRing_invariant_witness:
  "sort_Slice_contract example_sort (\<lambda>x y. (x::uint32) < y) \<and>
   sorted (nodes (updateRing example_sort NewConsistentHashStrategy [bucket_A, bucket_B])) \<and>
   length (nodes (updateRing example_sort NewConsistentHashStrategy [bucket_A, bucket_B])) = 200"
  using updateRing_invariant [OF example_sort_nodes_contract, of NewConsistentHashStrategy "[bucket_A, bucket_B]"]
    example_sort_nodes_contract
  by (simp add: NewConsistentHashStrategy_def)

text \<open>C7 (amended) at the two buckets of the capacity scenario.\<close>

theorem LeastSpace_SelectBucket_max_witness:
  "sort_Slice_contract example_sort more_space \<and>
   (\<exists>b. LeastSpace_SelectBucket example_sort [bucket_A, bucket_B] ''x'' 0 = Inr b \<and>
        b \<in> set [bucket_A, bucket_B] \<and>
        sint (GetAvailableSpace bucket_A) \<le> sint (GetAvailableSpace b) \<and>
        sint (GetAvailableSpace bucket_B) \<le> sint (GetAvailableSpace b))"
  using LeastSpace_SelectBucket_max [OF example_sort_buckets_contract, of "[bucket_A, bucket_B]" "''x''" 0]
    example_sort_buckets_contract
  by simp

text \<open>
  C7 as stated fails on the tie-break.  With Go's \<open>sort.Slice\<close> and thirteen buckets of
  which the fourth and the seventh tie for the maximum, the strategy returns the seventh:
  the pivot (the median of the elements 3, 6 and 9) is the seventh bucket, \<open>partition_func\<close>
  swaps it to the front, and the insertion sort of the other twelve leaves it there.
\<close>

theorem LeastSpace_SelectBucket_tie_counterexample:
  "map (\<lambda>b. sint (GetAvailableSpace b)) example_buckets13 = [1, 1, 1, 5, 1, 1, 5, 1, 1, 1, 1, 1, 1] \<and>
   map (\<lambda>b. Name (Config b)) (sort_Slice more_space example_buckets13)
     = [''b6'', ''b3'', ''b1'', ''b2'', ''b4'', ''b5'', ''b0'', ''b7'', ''b8'', ''b9'', ''b10'',
        ''b11'', ''b12''] \<and>
   LeastSpace_SelectBucket sort_Slice example_buckets13 ''x'' 0 = Inr (example_buckets13 ! 6) \<and>
   example_buckets13 ! 6 \<noteq> example_buckets13 ! 3"
  by code_simp

text \<open>Two virtual keys of different buckets with the same point.\<close>

lemma hash_b5_50: "hash (virtualKey ''b5'' 50) = 0xe598a706"
  by code_simp

lemma hash_b617_35: "hash (virtualKey ''b617'' 35) = 0xe598a706"
  by code_simp

text \<open>
  C6 as stated fails on the lookup.  The buckets \<open>b5\<close> and \<open>b617\<close> share a point: the MD5
  digests of \<open>"b5-50"\<close> and \<open>"b617-35"\<close> both start with \<open>e5 98 a7 06\<close>.  After the rebuild
  from the two buckets the ring maps this point of \<open>b5\<close> to \<open>b617\<close>.
\<close>

theorem updateRing_collision_counterexample:
  "hash (virtualKey ''b5'' 50) \<in> set (points 100 (example_bucket ''b5'' 100 1 0)) \<and>
   ring (updateRing sort_Slice NewConsistentHashStrategy
           [example_bucket ''b5'' 100 1 0, example_bucket ''b617'' 100 1 0])
        (hash (virtualKey ''b5'' 50))
     = Some (example_bucket ''b617'' 100 1 0)"
proof -
  let ?b5 = "example_bucket ''b5'' 100 1 0"
  let ?b617 = "example_bucket ''b617'' 100 1 0"
  have n: "Name (Config ?b5) = ''b5''" "Name (Config ?b617) = ''b617''"
    by (simp_all add: example_bucket_def)
  have "(\<lambda>i. hash (virtualKey ''b5'' i)) 50 \<in> (\<lambda>i. hash (virtualKey ''b5'' i)) ` {0..<100}"
    by (rule imageI) simp
  then have 1: "hash (virtualKey ''b5'' 50) \<in> set (points 100 ?b5)"
    by (simp add: points_def n)
  have "(\<lambda>i. hash (virtualKey ''b617'' i)) 35 \<in> (\<lambda>i. hash (virtualKey ''b617'' i)) ` {0..<100}"
    by (rule imageI) simp
  then have "hash (virtualKey ''b617'' 35) \<in> set (points 100 ?b617)"
    by (simp add: points_def n)
  then have 2: "hash (virtualKey ''b5'' 50) \<in> set (points 100 ?b617)"
    by (simp only: hash_b5_50 hash_b617_35)
  have "owner 100 [?b5, ?b617] (hash (virtualKey ''b5'' 50)) = Some ([?b5, ?b617] ! 1)"
    by (rule owner_last) (use 2 in simp_all)
  then have "ring (updateRing sort_Slice NewConsistentHashStrategy [?b5, ?b617])
               (hash (virtualKey ''b5'' 50)) = Some ?b617"
    by (simp add: updateRing_ring NewConsistentHashStrategy_def)
  with 1 show ?thesis by simp
qed

(*THMS-END*)

end
